theory Spec2Isabelle
  imports Complex_Main "HOL-Library.Word" "HOL-Library.Sublist" "HOL-Library.Log_Nat"
begin

section \<open>JavaScript values\<close>

text \<open>
  The translator \<^verbatim>\<open>jsonToCurl\<close> of \<^verbatim>\<open>curlify.js\<close> reads a configuration object
  that \<^verbatim>\<open>JSON.parse\<close> produced (or that a caller built by hand). The embedding follows
  ECMAScript for every built-in the function calls.

  \<^item> A JavaScript string is a sequence of UTF-16 code units: \<open>16 word list\<close>.
  \<^item> A value is one of the JSON shapes, or \<^verbatim>\<open>undefined\<close>. \<open>JObj\<close> holds the own
    properties of a plain object (prototype \<^verbatim>\<open>Object.prototype\<close>) in the order in which
    they were created, which for a parsed text is the order of the text; a well-formed
    object has distinct keys.
  \<^item> \<open>JNum n\<close> is the Number value of the integer \<open>n\<close>: the double nearest to \<open>n\<close>
    (ties to even), which is \<open>n\<close> itself up to \<open>2^53\<close> and for every larger integer
    that is a double, and an infinity from \<open>2^1024 - 2^970\<close> on. Numbers with a fraction
    and NaN are not values of the model.
\<close>

type_synonym jsstring = "16 word list"

datatype jsval =
    JUndefined
  | JNull
  | JBool bool
  | JNum int
  | JStr jsstring
  | JArr "jsval list"
  | JObj "(jsstring \<times> jsval) list"

text \<open>What a call can end with other than a string: the two exceptions the built-ins
  raise here.\<close>

datatype error = TypeError | URIError

definition and_then :: "error + 'a \<Rightarrow> ('a \<Rightarrow> error + 'b) \<Rightarrow> error + 'b" where
  "and_then m f = (case m of Inl e \<Rightarrow> Inl e | Inr x \<Rightarrow> f x)"

subsection \<open>Strings\<close>

definition lit :: "string \<Rightarrow> jsstring" where
  "lit s = map of_char s"

text \<open>The apostrophe, the backslash, the double quote and the line feed.\<close>

definition apos :: "16 word" where "apos = 0x27"
definition bsl :: "16 word" where "bsl = 0x5C"
definition dquote :: "16 word" where "dquote = 0x22"
definition lf :: "16 word" where "lf = 0x0A"

text \<open>\<^verbatim>\<open>Array.prototype.join\<close> on an array of strings.\<close>

fun join :: "jsstring \<Rightarrow> jsstring list \<Rightarrow> jsstring" where
  "join sep [] = []"
| "join sep [x] = x"
| "join sep (x # y # ys) = x @ sep @ join sep (y # ys)"

text \<open>\<^verbatim>\<open>s.replace(/'/g, "'\\''")\<close>: every apostrophe becomes the four code units
  apostrophe, backslash, apostrophe, apostrophe (the replacement holds no \<^verbatim>\<open>$\<close>).\<close>

definition replace_apos :: "jsstring \<Rightarrow> jsstring" where
  "replace_apos s = concat (map (\<lambda>c. if c = apos then [apos, bsl, apos, apos] else [c]) s)"

subsection \<open>Code points\<close>

definition is_lead :: "16 word \<Rightarrow> bool" where
  "is_lead c = (0xD800 \<le> c \<and> c \<le> 0xDBFF)"

definition is_trail :: "16 word \<Rightarrow> bool" where
  "is_trail c = (0xDC00 \<le> c \<and> c \<le> 0xDFFF)"

text \<open>\<^verbatim>\<open>StringToCodePoints\<close>: a lead surrogate followed by a trail surrogate is one code
  point from \<open>0x10000\<close> up; any other surrogate stands for itself (unpaired).\<close>

fun StringToCodePoints :: "jsstring \<Rightarrow> int list" where
  "StringToCodePoints [] = []"
| "StringToCodePoints [c] = [uint c]"
| "StringToCodePoints (c # d # cs) =
     (if is_lead c \<and> is_trail d
      then (0x10000 + (uint c - 0xD800) * 0x400 + (uint d - 0xDC00)) # StringToCodePoints cs
      else uint c # StringToCodePoints (d # cs))"

definition is_surrogate :: "int \<Rightarrow> bool" where
  "is_surrogate cp = (0xD800 \<le> cp \<and> cp \<le> 0xDFFF)"

text \<open>\<^verbatim>\<open>CodePointToUTF16CodeUnits\<close>.\<close>

definition utf16 :: "int \<Rightarrow> jsstring" where
  "utf16 cp =
     (if cp < 0x10000 then [of_int cp]
      else [of_int (0xD800 + (cp - 0x10000) div 0x400), of_int (0xDC00 + (cp - 0x10000) mod 0x400)])"

text \<open>The UTF-8 octets of a code point.\<close>

definition utf8 :: "int \<Rightarrow> int list" where
  "utf8 cp =
     (if cp < 0x80 then [cp]
      else if cp < 0x800 then [0xC0 + cp div 0x40, 0x80 + cp mod 0x40]
      else if cp < 0x10000 then [0xE0 + cp div 0x1000, 0x80 + cp div 0x40 mod 0x40, 0x80 + cp mod 0x40]
      else [0xF0 + cp div 0x40000, 0x80 + cp div 0x1000 mod 0x40, 0x80 + cp div 0x40 mod 0x40,
            0x80 + cp mod 0x40])"

subsection \<open>Numbers\<close>

text \<open>Rounding the quotient \<open>a / d\<close> to the nearest integer, ties to the even one, for
  \<open>a\<close> not negative and \<open>d\<close> positive.\<close>

definition rne :: "int \<Rightarrow> int \<Rightarrow> int" where
  "rne a d =
     (if d < 2 * (a mod d) \<or> (2 * (a mod d) = d \<and> odd (a div d)) then a div d + 1 else a div d)"

text \<open>The double nearest to an integer that is not negative: the integer itself when it
  has at most 53 bits, else its leading 53 bits rounded to nearest, ties to even.\<close>

definition round_double :: "int \<Rightarrow> int" where
  "round_double m =
     (if bitlen m \<le> 53 then m
      else rne m (2 ^ nat (bitlen m - 53)) * 2 ^ nat (bitlen m - 53))"

definition number_value :: "int \<Rightarrow> int" where
  "number_value n = (if n < 0 then - round_double (- n) else round_double n)"

text \<open>The largest double is \<open>2^1024 - 2^971\<close>; what rounds to \<open>2^1024\<close> is an infinity.\<close>

definition is_infinite :: "int \<Rightarrow> bool" where
  "is_infinite n = (2 ^ 1024 \<le> round_double \<bar>n\<bar>)"

subsection \<open>Numbers to strings\<close>

text \<open>The decimal digits of an integer that is not negative.\<close>

function digits :: "int \<Rightarrow> jsstring" where
  "digits n = (if n < 10 then [of_int (48 + n)] else digits (n div 10) @ [of_int (48 + n mod 10)])"
  by pat_completeness auto
termination
  by (relation "measure nat") auto

declare digits.simps [simp del]

text \<open>
  \<^verbatim>\<open>Number::toString\<close> writes the shortest decimal that reads back as the same double:
  the fewest significant digits \<open>k\<close>, and among those the decimal closest to the number
  (the even one on a tie), as the standard recommends and engines do. For a positive
  integer double \<open>x\<close> and a power of ten \<open>p\<close>,
  \<open>candidate x p\<close> is that decimal among the two multiples of \<open>p\<close> around \<open>x\<close>, if one
  of them reads back as \<open>x\<close>; \<open>shortest\<close> tries the powers of ten from the largest down,
  and \<open>p = 1\<close> gives \<open>x\<close> itself.
\<close>

definition candidate :: "int \<Rightarrow> int \<Rightarrow> int option" where
  "candidate x p =
     (let lo = (x div p) * p; hi = lo + p
      in if round_double lo = x \<and> round_double hi = x
         then Some (if x - lo < hi - x \<or> (x - lo = hi - x \<and> even (x div p)) then lo else hi)
         else if round_double lo = x then Some lo
         else if round_double hi = x then Some hi
         else None)"

fun shortest :: "int \<Rightarrow> nat \<Rightarrow> int" where
  "shortest x 0 = x"
| "shortest x (Suc e) = (case candidate x (10 ^ Suc e) of Some v \<Rightarrow> v | None \<Rightarrow> shortest x e)"

definition strip_zeros :: "jsstring \<Rightarrow> jsstring" where
  "strip_zeros s = rev (dropWhile (\<lambda>c. c = 0x30) (rev s))"

text \<open>An integer of at most 21 digits is written in full, a longer one as
  \<^verbatim>\<open>d.ddde+n\<close> (no point after a single digit).\<close>

definition render_positive :: "int \<Rightarrow> jsstring" where
  "render_positive x =
     (let ds = digits (shortest x (length (digits x) - 1))
      in if length ds \<le> 21 then ds
         else (case strip_zeros ds of
                 [] \<Rightarrow> []
               | [d] \<Rightarrow> [d]
               | d # more \<Rightarrow> d # 0x2E # more)
              @ lit ''e+'' @ digits (int (length ds) - 1))"

definition Number_toString :: "int \<Rightarrow> jsstring" where
  "Number_toString n =
     (if n = 0 then lit ''0''
      else if is_infinite n then (if n < 0 then lit ''-Infinity'' else lit ''Infinity'')
      else (if n < 0 then lit ''-'' else []) @ render_positive (round_double \<bar>n\<bar>))"

subsection \<open>Truthiness and property access\<close>

text \<open>\<^verbatim>\<open>ToBoolean\<close>.\<close>

fun truthy :: "jsval \<Rightarrow> bool" where
  "truthy JUndefined = False"
| "truthy JNull = False"
| "truthy (JBool b) = b"
| "truthy (JNum n) = (n \<noteq> 0)"
| "truthy (JStr s) = (s \<noteq> [])"
| "truthy (JArr xs) = True"
| "truthy (JObj kvs) = True"

text \<open>
  \<^verbatim>\<open>config.name\<close> for the names the translator reads (\<^verbatim>\<open>method\<close>, \<^verbatim>\<open>headers\<close>,
  \<^verbatim>\<open>form\<close>, ...): the own property when the value is an object that has it, and
  \<^verbatim>\<open>undefined\<close> otherwise, since no prototype defines any of these names. The caller
  rules out \<^verbatim>\<open>null\<close> and \<^verbatim>\<open>undefined\<close>, on which property access raises.
\<close>

definition Get :: "jsval \<Rightarrow> string \<Rightarrow> jsval" where
  "Get v name =
     (case v of
        JObj kvs \<Rightarrow> (case map_of kvs (lit name) of Some x \<Rightarrow> x | None \<Rightarrow> JUndefined)
      | _ \<Rightarrow> JUndefined)"

subsection \<open>Own property order and \<^verbatim>\<open>Object.entries\<close>\<close>

definition is_digit :: "16 word \<Rightarrow> bool" where
  "is_digit c = (0x30 \<le> c \<and> c \<le> 0x39)"

definition digits_val :: "jsstring \<Rightarrow> int" where
  "digits_val k = foldl (\<lambda>a c. 10 * a + (uint c - 48)) 0 k"

text \<open>An array index: the canonical decimal form of an integer from 0 to \<open>2^32 - 2\<close>.\<close>

definition is_array_index :: "jsstring \<Rightarrow> bool" where
  "is_array_index k =
     (k \<noteq> [] \<and> list_all is_digit k \<and> (k = [0x30] \<or> hd k \<noteq> 0x30) \<and> digits_val k \<le> 4294967294)"

text \<open>
  \<^verbatim>\<open>OrdinaryOwnPropertyKeys\<close>: the keys that are array indices come first, in ascending
  numeric order; the other string keys follow in the order of their creation.
\<close>

definition own_entries :: "(jsstring \<times> 'a) list \<Rightarrow> (jsstring \<times> 'a) list" where
  "own_entries kvs =
     sort_key (\<lambda>kv. digits_val (fst kv)) (filter (\<lambda>kv. is_array_index (fst kv)) kvs)
     @ filter (\<lambda>kv. \<not> is_array_index (fst kv)) kvs"

text \<open>
  \<^verbatim>\<open>Object.entries\<close> of a value that is neither \<^verbatim>\<open>null\<close> nor \<^verbatim>\<open>undefined\<close>: the
  ordered own properties of an object, the indexed elements of an array, the indexed code
  units of a string, and nothing for a number or a boolean.
\<close>

fun Object_entries :: "jsval \<Rightarrow> (jsstring \<times> jsval) list" where
  "Object_entries (JObj kvs) = own_entries kvs"
| "Object_entries (JArr xs) = map (\<lambda>ix. (Number_toString (int (fst ix)), snd ix)) (enumerate 0 xs)"
| "Object_entries (JStr s) =
     map (\<lambda>ic. (Number_toString (int (fst ic)), JStr [snd ic])) (enumerate 0 s)"
| "Object_entries v = []"

subsection \<open>\<^verbatim>\<open>ToString\<close>\<close>

text \<open>
  \<^verbatim>\<open>ToString\<close>, as a template literal and \<^verbatim>\<open>encodeURIComponent\<close> apply it. An array
  goes through \<^verbatim>\<open>Array.prototype.join\<close>, which renders \<^verbatim>\<open>null\<close> and \<^verbatim>\<open>undefined\<close>
  elements as the empty string. A plain object goes through \<^verbatim>\<open>OrdinaryToPrimitive\<close>: an
  own property \<^verbatim>\<open>toString\<close> is never callable here, and then \<^verbatim>\<open>valueOf\<close> yields no
  primitive either, so the conversion raises; without it \<^verbatim>\<open>Object.prototype.toString\<close>
  answers.
\<close>

fun ToString :: "jsval \<Rightarrow> error + jsstring"
  and join_elements :: "jsval list \<Rightarrow> error + jsstring" where
  "ToString JUndefined = Inr (lit ''undefined'')"
| "ToString JNull = Inr (lit ''null'')"
| "ToString (JBool b) = Inr (if b then lit ''true'' else lit ''false'')"
| "ToString (JNum n) = Inr (Number_toString n)"
| "ToString (JStr s) = Inr s"
| "ToString (JArr xs) = join_elements xs"
| "ToString (JObj kvs) =
     (if lit ''toString'' \<in> set (map fst kvs) then Inl TypeError else Inr (lit ''[object Object]''))"
| "join_elements [] = Inr []"
| "join_elements (x # xs) =
     and_then (case x of JUndefined \<Rightarrow> Inr [] | JNull \<Rightarrow> Inr [] | _ \<Rightarrow> ToString x)
       (\<lambda>a. if xs = [] then Inr a
            else and_then (join_elements xs) (\<lambda>b. Inr (a @ lit '','' @ b)))"

subsection \<open>\<^verbatim>\<open>encodeURIComponent\<close>\<close>

text \<open>The characters \<^verbatim>\<open>encodeURIComponent\<close> leaves alone: ASCII letters, digits and
  \<^verbatim>\<open>- _ . ! ~ * ' ( )\<close>.\<close>

definition uri_unreserved :: "int \<Rightarrow> bool" where
  "uri_unreserved cp =
     ((0x41 \<le> cp \<and> cp \<le> 0x5A) \<or> (0x61 \<le> cp \<and> cp \<le> 0x7A) \<or> (0x30 \<le> cp \<and> cp \<le> 0x39)
      \<or> cp \<in> set [0x2D, 0x5F, 0x2E, 0x21, 0x7E, 0x2A, 0x27, 0x28, 0x29])"

definition hex_upper :: "int \<Rightarrow> 16 word" where
  "hex_upper d = (if d < 10 then of_int (48 + d) else of_int (55 + d))"

definition percent_octet :: "int \<Rightarrow> jsstring" where
  "percent_octet b = [0x25, hex_upper (b div 16), hex_upper (b mod 16)]"

text \<open>\<^verbatim>\<open>Encode\<close>: an unpaired surrogate raises \<^verbatim>\<open>URIError\<close>; any other code point outside
  the unreserved set becomes the percent-escapes of its UTF-8 octets.\<close>

fun Encode :: "int list \<Rightarrow> error + jsstring" where
  "Encode [] = Inr []"
| "Encode (cp # cps) =
     (if uri_unreserved cp then and_then (Encode cps) (\<lambda>r. Inr (of_int cp # r))
      else if is_surrogate cp then Inl URIError
      else and_then (Encode cps) (\<lambda>r. Inr (concat (map percent_octet (utf8 cp)) @ r)))"

definition encodeURIComponent :: "jsval \<Rightarrow> error + jsstring" where
  "encodeURIComponent v = and_then (ToString v) (\<lambda>s. Encode (StringToCodePoints s))"

subsection \<open>\<^verbatim>\<open>JSON.stringify\<close>\<close>

definition hex_lower :: "int \<Rightarrow> 16 word" where
  "hex_lower d = (if d < 10 then of_int (48 + d) else of_int (87 + d))"

definition unicode_escape :: "int \<Rightarrow> jsstring" where
  "unicode_escape cp =
     [bsl, 0x75, hex_lower (cp div 4096), hex_lower (cp div 256 mod 16),
      hex_lower (cp div 16 mod 16), hex_lower (cp mod 16)]"

text \<open>\<^verbatim>\<open>QuoteJSONString\<close>, one code point at a time.\<close>

definition quote_cp :: "int \<Rightarrow> jsstring" where
  "quote_cp cp =
     (if cp = 0x08 then [bsl, 0x62]
      else if cp = 0x09 then [bsl, 0x74]
      else if cp = 0x0A then [bsl, 0x6E]
      else if cp = 0x0C then [bsl, 0x66]
      else if cp = 0x0D then [bsl, 0x72]
      else if cp = 0x22 then [bsl, dquote]
      else if cp = 0x5C then [bsl, bsl]
      else if cp < 0x20 \<or> is_surrogate cp then unicode_escape cp
      else utf16 cp)"

definition QuoteJSONString :: "jsstring \<Rightarrow> jsstring" where
  "QuoteJSONString s = [dquote] @ concat (map quote_cp (StringToCodePoints s)) @ [dquote]"

text \<open>
  \<^verbatim>\<open>SerializeJSONProperty\<close> with no indentation: \<open>None\<close> is \<^verbatim>\<open>undefined\<close>. A property
  whose value serializes to \<^verbatim>\<open>undefined\<close> is left out of an object; such an element of
  an array is written \<^verbatim>\<open>null\<close>, and so is an infinity. No value here has a callable
  \<^verbatim>\<open>toJSON\<close>. The
  properties are serialized first and put in own property order afterwards, which gives
  the same text as visiting them in that order.
\<close>

fun SerializeJSONProperty :: "jsval \<Rightarrow> jsstring option"
  and serialize_properties :: "(jsstring \<times> jsval) list \<Rightarrow> (jsstring \<times> jsstring) list"
  and serialize_elements :: "jsval list \<Rightarrow> jsstring list" where
  "SerializeJSONProperty JUndefined = None"
| "SerializeJSONProperty JNull = Some (lit ''null'')"
| "SerializeJSONProperty (JBool b) = Some (if b then lit ''true'' else lit ''false'')"
| "SerializeJSONProperty (JNum n) = Some (if is_infinite n then lit ''null'' else Number_toString n)"
| "SerializeJSONProperty (JStr s) = Some (QuoteJSONString s)"
| "SerializeJSONProperty (JArr xs) =
     Some (lit ''['' @ join (lit '','') (serialize_elements xs) @ lit '']'')"
| "SerializeJSONProperty (JObj kvs) =
     Some (lit ''{''
           @ join (lit '','')
               (map (\<lambda>ks. QuoteJSONString (fst ks) @ lit '':'' @ snd ks)
                  (own_entries (serialize_properties kvs)))
           @ lit ''}'')"
| "serialize_properties [] = []"
| "serialize_properties (kv # kvs) =
     (case SerializeJSONProperty (snd kv) of
        None \<Rightarrow> serialize_properties kvs
      | Some s \<Rightarrow> (fst kv, s) # serialize_properties kvs)"
| "serialize_elements [] = []"
| "serialize_elements (x # xs) =
     (case SerializeJSONProperty x of None \<Rightarrow> lit ''null'' | Some s \<Rightarrow> s) # serialize_elements xs"

definition JSON_stringify :: "jsval \<Rightarrow> jsstring option" where
  "JSON_stringify v = SerializeJSONProperty v"

section \<open>The translator\<close>

subsection \<open>\<^verbatim>\<open>String.prototype.toUpperCase\<close>\<close>

text \<open>
  Upper-casing maps each code point through the Unicode case tables and writes the result
  back as UTF-16. On ASCII the table is the 26 letters; the table for the code points
  from 128 up is not part of the repository and is the parameter \<open>uc\<close> (for example
  \<open>uc 0xDF\<close> is the two code points of \<^verbatim>\<open>SS\<close>). Every theorem below holds for any
  \<open>uc\<close>.
\<close>

definition ascii_upper :: "int \<Rightarrow> int" where
  "ascii_upper cp = (if 0x61 \<le> cp \<and> cp \<le> 0x7A then cp - 0x20 else cp)"

definition upper_cp :: "(int \<Rightarrow> int list) \<Rightarrow> int \<Rightarrow> int list" where
  "upper_cp uc cp = (if cp < 0x80 then [ascii_upper cp] else uc cp)"

definition toUpperCase :: "(int \<Rightarrow> int list) \<Rightarrow> jsstring \<Rightarrow> jsstring" where
  "toUpperCase uc s = concat (map utf16 (concat (map (upper_cp uc) (StringToCodePoints s))))"

subsection \<open>The steps of \<^verbatim>\<open>jsonToCurl\<close>, in the order of the source\<close>

text \<open>
  Each step yields the tokens it pushes on \<^verbatim>\<open>parts\<close>, or the exception it raises.

  Method: \<^verbatim>\<open>(config.method || 'GET').toUpperCase()\<close>; a truthy method that is not a
  string has no \<^verbatim>\<open>toUpperCase\<close> to call.
\<close>

definition method_part :: "(int \<Rightarrow> int list) \<Rightarrow> jsval \<Rightarrow> error + jsstring list" where
  "method_part uc config =
     (case (if truthy (Get config ''method'') then Get config ''method'' else JStr (lit ''GET'')) of
        JStr s \<Rightarrow>
          (let method = toUpperCase uc s
           in Inr (if method \<noteq> lit ''GET'' then [lit ''-X '' @ method] else []))
      | _ \<Rightarrow> Inl TypeError)"

text \<open>Headers: one token for each entry; \<^verbatim>\<open>value.replace\<close> exists on strings only.\<close>

definition header_flag :: "jsstring \<Rightarrow> jsstring \<Rightarrow> jsstring" where
  "header_flag key val = lit ''-H '' @ [apos] @ key @ lit '': '' @ replace_apos val @ [apos]"

fun header_flags :: "(jsstring \<times> jsval) list \<Rightarrow> error + jsstring list" where
  "header_flags [] = Inr []"
| "header_flags ((key, val) # es) =
     (case val of
        JStr s \<Rightarrow> and_then (header_flags es) (\<lambda>ps. Inr (header_flag key s # ps))
      | _ \<Rightarrow> Inl TypeError)"

definition header_parts :: "jsval \<Rightarrow> error + jsstring list" where
  "header_parts config =
     (if truthy (Get config ''headers'')
      then header_flags (Object_entries (Get config ''headers''))
      else Inr [])"

text \<open>Form data: \<^verbatim>\<open>encodeURIComponent(key)\<close>, \<^verbatim>\<open>encodeURIComponent(value ?? '')\<close>, joined
  with \<^verbatim>\<open>&\<close>; no token when there is no entry.\<close>

definition nullish_empty :: "jsval \<Rightarrow> jsval" where
  "nullish_empty v = (case v of JUndefined \<Rightarrow> JStr [] | JNull \<Rightarrow> JStr [] | _ \<Rightarrow> v)"

fun form_pairs :: "(jsstring \<times> jsval) list \<Rightarrow> error + jsstring list" where
  "form_pairs [] = Inr []"
| "form_pairs ((key, val) # es) =
     and_then (encodeURIComponent (JStr key)) (\<lambda>encodedKey.
     and_then (encodeURIComponent (nullish_empty val)) (\<lambda>encodedValue.
     and_then (form_pairs es) (\<lambda>ps. Inr ((encodedKey @ lit ''='' @ encodedValue) # ps))))"

definition data_flag :: "jsstring \<Rightarrow> jsstring" where
  "data_flag payload = lit ''-d '' @ [apos] @ payload @ [apos]"

definition form_part :: "jsval \<Rightarrow> error + jsstring list" where
  "form_part config =
     (if truthy (Get config ''form'')
      then and_then (form_pairs (Object_entries (Get config ''form''))) (\<lambda>formParts.
             Inr (if length formParts > 0 then [data_flag (join (lit ''&'') formParts)] else []))
      else Inr [])"

text \<open>The body as a string: itself when \<^verbatim>\<open>typeof config.body === 'string'\<close>, else
  \<^verbatim>\<open>JSON.stringify(config.body)\<close>; then the apostrophes are replaced. (A result
  \<^verbatim>\<open>undefined\<close> of \<^verbatim>\<open>JSON.stringify\<close> would have no \<^verbatim>\<open>replace\<close>.)\<close>

definition body_flag :: "jsval \<Rightarrow> error + jsstring list" where
  "body_flag body =
     (case (case body of JStr s \<Rightarrow> Some s | _ \<Rightarrow> JSON_stringify body) of
        Some bodyStr \<Rightarrow> Inr [data_flag (replace_apos bodyStr)]
      | None \<Rightarrow> Inl TypeError)"

definition json_body_part :: "jsval \<Rightarrow> error + jsstring list" where
  "json_body_part config =
     (if truthy (Get config ''body'') \<and> truthy (Get config ''json'')
      then body_flag (Get config ''body'')
      else Inr [])"

definition raw_body_part :: "jsval \<Rightarrow> error + jsstring list" where
  "raw_body_part config =
     (if truthy (Get config ''body'') \<and> \<not> truthy (Get config ''json'') \<and> \<not> truthy (Get config ''form'')
      then body_flag (Get config ''body'')
      else Inr [])"

definition gzip_part :: "jsval \<Rightarrow> jsstring list" where
  "gzip_part config = (if truthy (Get config ''gzip'') then [lit ''--compressed''] else [])"

text \<open>\<^verbatim>\<open>config.rejectUnauthorized === false\<close>: strict equality with the boolean.\<close>

definition insecure_part :: "jsval \<Rightarrow> jsstring list" where
  "insecure_part config =
     (if Get config ''rejectUnauthorized'' = JBool False then [lit ''-k''] else [])"

definition redirect_part :: "jsval \<Rightarrow> jsstring list" where
  "redirect_part config =
     (if truthy (Get config ''followRedirect'') \<or> truthy (Get config ''followAllRedirects'')
      then [lit ''-L''] else [])"

text \<open>
  \<^verbatim>\<open>Math.ceil(x / 1000)\<close> for an integer double \<open>x\<close>. The quotient is a double: with
  \<open>2^e \<le> \<bar>x\<bar> / 1000 < 2^(e + 1)\<close> it is the multiple of \<open>2^(e - 52)\<close> nearest to
  \<open>\<bar>x\<bar> / 1000\<close>, ties to even, with the sign of \<open>x\<close>; then comes the ceiling.
\<close>

definition ceil_quotient_1000 :: "int \<Rightarrow> int" where
  "ceil_quotient_1000 x =
     (if x = 0 then 0
      else
        let a = \<bar>x\<bar>;
            e = (if 1000 * 2 ^ nat (bitlen a) \<le> 1024 * a then bitlen a - 10 else bitlen a - 11);
            s = 52 - e
        in if 0 \<le> s
           then (let r = rne (a * 2 ^ nat s) 1000
                 in if 0 < x then - ((- r) div 2 ^ nat s) else - (r div 2 ^ nat s))
           else (let v = rne a (1000 * 2 ^ nat (- s)) * 2 ^ nat (- s)
                 in if 0 < x then v else - v))"

definition timeoutSec :: "int \<Rightarrow> int" where
  "timeoutSec ms = ceil_quotient_1000 (number_value ms)"

text \<open>The text of \<^verbatim>\<open>timeoutSec\<close> in the template literal; an infinity stays one.\<close>

definition secs_of_number :: "int \<Rightarrow> jsstring" where
  "secs_of_number ms =
     (if is_infinite ms then Number_toString ms else Number_toString (timeoutSec ms))"

text \<open>
  A timeout that is a string goes through \<^verbatim>\<open>ToNumber\<close>. A run of at most 20 decimal
  digits is the number it spells. Every other string (white space, a sign, a fraction, an
  exponent, another radix, \<^verbatim>\<open>Infinity\<close>, text that is no number) gives a double that
  need not be an integer, or NaN; for these the text of \<^verbatim>\<open>Math.ceil(Number(s) / 1000)\<close>
  is the parameter \<open>sn\<close>. Every theorem below holds for any \<open>sn\<close>.
\<close>

definition secs_of_string :: "(jsstring \<Rightarrow> jsstring) \<Rightarrow> jsstring \<Rightarrow> jsstring" where
  "secs_of_string sn s =
     (if s \<noteq> [] \<and> length s \<le> 20 \<and> list_all is_digit s then secs_of_number (digits_val s)
      else sn s)"

text \<open>
  The timeout step. \<^verbatim>\<open>true\<close> is the number 1. An array or an object goes through
  \<^verbatim>\<open>ToPrimitive\<close>: \<^verbatim>\<open>valueOf\<close> yields no primitive here, so the string of
  \<^verbatim>\<open>ToString\<close> (or its exception) is what \<^verbatim>\<open>ToNumber\<close> reads.
\<close>

definition timeout_part :: "(jsstring \<Rightarrow> jsstring) \<Rightarrow> jsval \<Rightarrow> error + jsstring list" where
  "timeout_part sn config =
     (if truthy (Get config ''timeout'')
      then (case Get config ''timeout'' of
              JNum ms \<Rightarrow> Inr [lit ''--max-time '' @ secs_of_number ms]
            | JBool b \<Rightarrow> Inr [lit ''--max-time '' @ secs_of_number 1]
            | JStr s \<Rightarrow> Inr [lit ''--max-time '' @ secs_of_string sn s]
            | v \<Rightarrow> and_then (ToString v) (\<lambda>s. Inr [lit ''--max-time '' @ secs_of_string sn s]))
      else Inr [])"

definition include_part :: "jsval \<Rightarrow> jsstring list" where
  "include_part config =
     (if truthy (Get config ''resolveWithFullResponse'') then [lit ''-i''] else [])"

text \<open>\<^verbatim>\<open>config.uri || config.url\<close>, then the template literal between apostrophes.\<close>

definition resolved_url :: "jsval \<Rightarrow> jsval" where
  "resolved_url config =
     (if truthy (Get config ''uri'') then Get config ''uri'' else Get config ''url'')"

definition url_part :: "jsval \<Rightarrow> error + jsstring list" where
  "url_part config =
     (if truthy (resolved_url config)
      then and_then (ToString (resolved_url config)) (\<lambda>s. Inr [[apos] @ s @ [apos]])
      else Inr [])"

subsection \<open>\<^verbatim>\<open>jsonToCurl\<close>\<close>

text \<open>The array \<^verbatim>\<open>parts\<close> when the function reaches its last line. Reading a property
  of \<^verbatim>\<open>null\<close> or \<^verbatim>\<open>undefined\<close> raises at the first line.\<close>

definition curl_parts ::
  "(int \<Rightarrow> int list) \<Rightarrow> (jsstring \<Rightarrow> jsstring) \<Rightarrow> jsval \<Rightarrow> error + jsstring list" where
  "curl_parts uc sn config =
     (if config = JNull \<or> config = JUndefined then Inl TypeError
      else
        and_then (method_part uc config) (\<lambda>m.
        and_then (header_parts config) (\<lambda>h.
        and_then (form_part config) (\<lambda>f.
        and_then (json_body_part config) (\<lambda>j.
        and_then (raw_body_part config) (\<lambda>r.
        and_then (timeout_part sn config) (\<lambda>t.
        and_then (url_part config) (\<lambda>u.
          Inr ([lit ''curl''] @ m @ h @ f @ j @ r @ gzip_part config @ insecure_part config
               @ redirect_part config @ t @ include_part config @ u)))))))))"

text \<open>The separator of \<^verbatim>\<open>parts.join(' \\\n  ')\<close>: space, backslash, line feed, two
  spaces.\<close>

definition separator :: jsstring where
  "separator = [0x20, bsl, lf, 0x20, 0x20]"

definition jsonToCurl ::
  "(int \<Rightarrow> int list) \<Rightarrow> (jsstring \<Rightarrow> jsstring) \<Rightarrow> jsval \<Rightarrow> error + jsstring" where
  "jsonToCurl uc sn config =
     and_then (curl_parts uc sn config) (\<lambda>parts. Inr (join separator parts))"

section \<open>Well-formed configurations\<close>

text \<open>
  The shape the data model gives a configuration, as a predicate: it is an object;
  \<^verbatim>\<open>method\<close> is a string when it is truthy; \<^verbatim>\<open>headers\<close> maps names to strings;
  \<^verbatim>\<open>form\<close> maps names to primitive values; \<^verbatim>\<open>timeout\<close> is a number when it is truthy;
  the URL is a primitive value. Nothing is asked of \<^verbatim>\<open>body\<close>, of the boolean flags or
  of any other field. One condition goes beyond the data model: the names and the string
  values of \<^verbatim>\<open>form\<close> are well-formed UTF-16 (\<^verbatim>\<open>String.prototype.isWellFormed\<close>: no
  unpaired surrogate), since \<^verbatim>\<open>encodeURIComponent\<close> raises on any other string.
\<close>

definition well_formed_string :: "jsstring \<Rightarrow> bool" where
  "well_formed_string s = list_all (\<lambda>cp. \<not> is_surrogate cp) (StringToCodePoints s)"

definition is_string :: "jsval \<Rightarrow> bool" where
  "is_string v = (case v of JStr s \<Rightarrow> True | _ \<Rightarrow> False)"

definition is_number :: "jsval \<Rightarrow> bool" where
  "is_number v = (case v of JNum n \<Rightarrow> True | _ \<Rightarrow> False)"

definition is_object :: "jsval \<Rightarrow> bool" where
  "is_object v = (case v of JObj kvs \<Rightarrow> True | _ \<Rightarrow> False)"

definition is_primitive :: "jsval \<Rightarrow> bool" where
  "is_primitive v = (case v of JArr xs \<Rightarrow> False | JObj kvs \<Rightarrow> False | _ \<Rightarrow> True)"

definition form_value_ok :: "jsval \<Rightarrow> bool" where
  "form_value_ok v = (case v of JStr s \<Rightarrow> well_formed_string s | _ \<Rightarrow> is_primitive v)"

definition headers_ok :: "jsval \<Rightarrow> bool" where
  "headers_ok v =
     (case v of JObj hs \<Rightarrow> list_all (\<lambda>kv. is_string (snd kv)) hs | _ \<Rightarrow> \<not> truthy v)"

definition form_ok :: "jsval \<Rightarrow> bool" where
  "form_ok v =
     (case v of
        JObj fs \<Rightarrow> list_all (\<lambda>kv. well_formed_string (fst kv) \<and> form_value_ok (snd kv)) fs
      | _ \<Rightarrow> \<not> truthy v)"

definition wf_config :: "jsval \<Rightarrow> bool" where
  "wf_config config =
     (is_object config
      \<and> (is_string (Get config ''method'') \<or> \<not> truthy (Get config ''method''))
      \<and> headers_ok (Get config ''headers'')
      \<and> form_ok (Get config ''form'')
      \<and> (is_number (Get config ''timeout'') \<or> \<not> truthy (Get config ''timeout''))
      \<and> is_primitive (resolved_url config))"

text \<open>The names \<^verbatim>\<open>jsonToCurl\<close> reads.\<close>

definition known_fields :: "string list" where
  "known_fields =
     [''method'', ''headers'', ''form'', ''body'', ''json'', ''gzip'', ''rejectUnauthorized'',
      ''followRedirect'', ''followAllRedirects'', ''timeout'', ''resolveWithFullResponse'',
      ''uri'', ''url'']"

section \<open>Properties\<close>

subsection \<open>Sequencing\<close>

lemma and_then_Inr_iff:
  "and_then m f = Inr y \<longleftrightarrow> (\<exists>x. m = Inr x \<and> f x = Inr y)"
  by (cases m) (simp_all add: and_then_def)

lemma and_then_Inr [simp]: "and_then (Inr x) f = f x"
  by (simp add: and_then_def)

lemma and_then_Inl [simp]: "and_then (Inl e) f = Inl e"
  by (simp add: and_then_def)

text \<open>The string returned is the tokens joined with the separator.\<close>

lemma jsonToCurl_Inr_iff:
  "jsonToCurl uc sn config = Inr out \<longleftrightarrow> (\<exists>ps. curl_parts uc sn config = Inr ps \<and> out = join separator ps)"
  by (auto simp: jsonToCurl_def and_then_Inr_iff)

text \<open>A call that returns has run every step, and \<^verbatim>\<open>parts\<close> is what the steps pushed,
  in order.\<close>

lemma curl_parts_Inr:
  assumes "curl_parts uc sn config = Inr ps"
  obtains m h f j r t u where
    "method_part uc config = Inr m" "header_parts config = Inr h" "form_part config = Inr f"
    "json_body_part config = Inr j" "raw_body_part config = Inr r"
    "timeout_part sn config = Inr t" "url_part config = Inr u"
    "ps = [lit ''curl''] @ m @ h @ f @ j @ r @ gzip_part config @ insecure_part config
          @ redirect_part config @ t @ include_part config @ u"
  using assms
  by (auto simp: curl_parts_def and_then_Inr_iff split: if_splits)

subsection \<open>How the tokens of each step begin\<close>

lemma filter_other_prefix:
  assumes "list_all (prefix a) xs" and "\<not> prefix a b" and "\<not> prefix b a"
  shows "filter (prefix b) xs = []"
proof -
  have "\<not> prefix b x" if "x \<in> set xs" for x
  proof
    assume "prefix b x"
    moreover have "prefix a x" using assms(1) that by (simp add: list_all_iff)
    ultimately have "prefix a b \<or> prefix b a" using prefix_same_cases by blast
    with assms(2,3) show False by simp
  qed
  then show ?thesis by (simp add: filter_empty_conv)
qed

lemma filter_same_prefix:
  "list_all (prefix a) xs \<Longrightarrow> filter (prefix a) xs = xs"
  by (simp add: list_all_iff)

lemma notin_other_prefix:
  "list_all (prefix a) xs \<Longrightarrow> \<not> prefix a b \<Longrightarrow> b \<notin> set xs"
  by (auto simp: list_all_iff)

lemma method_shape: "method_part uc config = Inr m \<Longrightarrow> list_all (prefix (lit ''-X '')) m"
  by (auto simp: method_part_def Let_def split: jsval.splits if_splits)

lemma header_flags_shape: "header_flags es = Inr h \<Longrightarrow> list_all (prefix (lit ''-H '')) h"
  by (induction es arbitrary: h rule: header_flags.induct)
     (auto simp: and_then_Inr_iff header_flag_def split: jsval.splits)

lemma header_shape: "header_parts config = Inr h \<Longrightarrow> list_all (prefix (lit ''-H '')) h"
  by (auto simp: header_parts_def header_flags_shape split: if_splits)

lemma form_shape: "form_part config = Inr f \<Longrightarrow> list_all (prefix (lit ''-d '')) f"
  by (auto simp: form_part_def and_then_Inr_iff data_flag_def split: if_splits)

lemma body_flag_shape: "body_flag b = Inr f \<Longrightarrow> list_all (prefix (lit ''-d '')) f"
  by (auto simp: body_flag_def data_flag_def split: option.splits)

lemma json_shape: "json_body_part config = Inr f \<Longrightarrow> list_all (prefix (lit ''-d '')) f"
  by (auto simp: json_body_part_def body_flag_shape split: if_splits)

lemma raw_shape: "raw_body_part config = Inr f \<Longrightarrow> list_all (prefix (lit ''-d '')) f"
  by (auto simp: raw_body_part_def body_flag_shape split: if_splits)

lemma gzip_shape: "list_all (prefix (lit ''--compressed'')) (gzip_part config)"
  by (simp add: gzip_part_def)

lemma insecure_shape: "list_all (prefix (lit ''-k'')) (insecure_part config)"
  by (simp add: insecure_part_def)

lemma redirect_shape: "list_all (prefix (lit ''-L'')) (redirect_part config)"
  by (simp add: redirect_part_def)

lemma include_shape: "list_all (prefix (lit ''-i'')) (include_part config)"
  by (simp add: include_part_def)

lemma timeout_shape: "timeout_part sn config = Inr t \<Longrightarrow> list_all (prefix (lit ''--max-time '')) t"
  by (auto simp: timeout_part_def and_then_Inr_iff split: if_splits jsval.splits)

lemma url_shape: "url_part config = Inr u \<Longrightarrow> list_all (prefix [apos]) u"
  by (auto simp: url_part_def and_then_Inr_iff split: if_splits)

subsection \<open>The tokens of one kind in the output\<close>


lemma header_tokens:
  assumes "curl_parts uc sn config = Inr ps"
  shows "\<exists>h. header_parts config = Inr h
           \<and> filter (prefix (lit ''-H '')) ps = h"
proof -
  from assms obtain m h f j r t u where parts:
    "method_part uc config = Inr m" "header_parts config = Inr h" "form_part config = Inr f"
    "json_body_part config = Inr j" "raw_body_part config = Inr r"
    "timeout_part sn config = Inr t" "url_part config = Inr u"
    "ps = [lit ''curl''] @ m @ h @ f @ j @ r @ gzip_part config @ insecure_part config
          @ redirect_part config @ t @ include_part config @ u"
    by (rule curl_parts_Inr)
  have "filter (prefix (lit ''-H '')) m = []"
    by (rule filter_other_prefix [OF method_shape [OF parts(1)]]) (simp_all add: lit_def apos_def)
  moreover have "filter (prefix (lit ''-H '')) h = h"
    by (rule filter_same_prefix [OF header_shape [OF parts(2)]])
  moreover have "filter (prefix (lit ''-H '')) f = []"
    by (rule filter_other_prefix [OF form_shape [OF parts(3)]]) (simp_all add: lit_def apos_def)
  moreover have "filter (prefix (lit ''-H '')) j = []"
    by (rule filter_other_prefix [OF json_shape [OF parts(4)]]) (simp_all add: lit_def apos_def)
  moreover have "filter (prefix (lit ''-H '')) r = []"
    by (rule filter_other_prefix [OF raw_shape [OF parts(5)]]) (simp_all add: lit_def apos_def)
  moreover have "filter (prefix (lit ''-H '')) (gzip_part config) = []"
    by (rule filter_other_prefix [OF gzip_shape]) (simp_all add: lit_def apos_def)
  moreover have "filter (prefix (lit ''-H '')) (insecure_part config) = []"
    by (rule filter_other_prefix [OF insecure_shape]) (simp_all add: lit_def apos_def)
  moreover have "filter (prefix (lit ''-H '')) (redirect_part config) = []"
    by (rule filter_other_prefix [OF redirect_shape]) (simp_all add: lit_def apos_def)
  moreover have "filter (prefix (lit ''-H '')) t = []"
    by (rule filter_other_prefix [OF timeout_shape [OF parts(6)]]) (simp_all add: lit_def apos_def)
  moreover have "filter (prefix (lit ''-H '')) (include_part config) = []"
    by (rule filter_other_prefix [OF include_shape]) (simp_all add: lit_def apos_def)
  moreover have "filter (prefix (lit ''-H '')) u = []"
    by (rule filter_other_prefix [OF url_shape [OF parts(7)]]) (simp_all add: lit_def apos_def)
  moreover have "\<not> prefix (lit ''-H '') (lit ''curl'')"
    by (simp add: lit_def apos_def)
  ultimately have "filter (prefix (lit ''-H '')) ps = h"
    by (simp add: parts(8))
  with parts show ?thesis by simp
qed

lemma data_tokens:
  assumes "curl_parts uc sn config = Inr ps"
  shows "\<exists>f j r. form_part config = Inr f \<and> json_body_part config = Inr j \<and> raw_body_part config = Inr r
           \<and> filter (prefix (lit ''-d '')) ps = f @ j @ r"
proof -
  from assms obtain m h f j r t u where parts:
    "method_part uc config = Inr m" "header_parts config = Inr h" "form_part config = Inr f"
    "json_body_part config = Inr j" "raw_body_part config = Inr r"
    "timeout_part sn config = Inr t" "url_part config = Inr u"
    "ps = [lit ''curl''] @ m @ h @ f @ j @ r @ gzip_part config @ insecure_part config
          @ redirect_part config @ t @ include_part config @ u"
    by (rule curl_parts_Inr)
  have "filter (prefix (lit ''-d '')) m = []"
    by (rule filter_other_prefix [OF method_shape [OF parts(1)]]) (simp_all add: lit_def apos_def)
  moreover have "filter (prefix (lit ''-d '')) h = []"
    by (rule filter_other_prefix [OF header_shape [OF parts(2)]]) (simp_all add: lit_def apos_def)
  moreover have "filter (prefix (lit ''-d '')) f = f"
    by (rule filter_same_prefix [OF form_shape [OF parts(3)]])
  moreover have "filter (prefix (lit ''-d '')) j = j"
    by (rule filter_same_prefix [OF json_shape [OF parts(4)]])
  moreover have "filter (prefix (lit ''-d '')) r = r"
    by (rule filter_same_prefix [OF raw_shape [OF parts(5)]])
  moreover have "filter (prefix (lit ''-d '')) (gzip_part config) = []"
    by (rule filter_other_prefix [OF gzip_shape]) (simp_all add: lit_def apos_def)
  moreover have "filter (prefix (lit ''-d '')) (insecure_part config) = []"
    by (rule filter_other_prefix [OF insecure_shape]) (simp_all add: lit_def apos_def)
  moreover have "filter (prefix (lit ''-d '')) (redirect_part config) = []"
    by (rule filter_other_prefix [OF redirect_shape]) (simp_all add: lit_def apos_def)
  moreover have "filter (prefix (lit ''-d '')) t = []"
    by (rule filter_other_prefix [OF timeout_shape [OF parts(6)]]) (simp_all add: lit_def apos_def)
  moreover have "filter (prefix (lit ''-d '')) (include_part config) = []"
    by (rule filter_other_prefix [OF include_shape]) (simp_all add: lit_def apos_def)
  moreover have "filter (prefix (lit ''-d '')) u = []"
    by (rule filter_other_prefix [OF url_shape [OF parts(7)]]) (simp_all add: lit_def apos_def)
  moreover have "\<not> prefix (lit ''-d '') (lit ''curl'')"
    by (simp add: lit_def apos_def)
  ultimately have "filter (prefix (lit ''-d '')) ps = f @ j @ r"
    by (simp add: parts(8))
  with parts show ?thesis by simp
qed

lemma timeout_tokens:
  assumes "curl_parts uc sn config = Inr ps"
  shows "\<exists>t. timeout_part sn config = Inr t
           \<and> filter (prefix (lit ''--max-time '')) ps = t"
proof -
  from assms obtain m h f j r t u where parts:
    "method_part uc config = Inr m" "header_parts config = Inr h" "form_part config = Inr f"
    "json_body_part config = Inr j" "raw_body_part config = Inr r"
    "timeout_part sn config = Inr t" "url_part config = Inr u"
    "ps = [lit ''curl''] @ m @ h @ f @ j @ r @ gzip_part config @ insecure_part config
          @ redirect_part config @ t @ include_part config @ u"
    by (rule curl_parts_Inr)
  have "filter (prefix (lit ''--max-time '')) m = []"
    by (rule filter_other_prefix [OF method_shape [OF parts(1)]]) (simp_all add: lit_def apos_def)
  moreover have "filter (prefix (lit ''--max-time '')) h = []"
    by (rule filter_other_prefix [OF header_shape [OF parts(2)]]) (simp_all add: lit_def apos_def)
  moreover have "filter (prefix (lit ''--max-time '')) f = []"
    by (rule filter_other_prefix [OF form_shape [OF parts(3)]]) (simp_all add: lit_def apos_def)
  moreover have "filter (prefix (lit ''--max-time '')) j = []"
    by (rule filter_other_prefix [OF json_shape [OF parts(4)]]) (simp_all add: lit_def apos_def)
  moreover have "filter (prefix (lit ''--max-time '')) r = []"
    by (rule filter_other_prefix [OF raw_shape [OF parts(5)]]) (simp_all add: lit_def apos_def)
  moreover have "filter (prefix (lit ''--max-time '')) (gzip_part config) = []"
    by (rule filter_other_prefix [OF gzip_shape]) (simp_all add: lit_def apos_def)
  moreover have "filter (prefix (lit ''--max-time '')) (insecure_part config) = []"
    by (rule filter_other_prefix [OF insecure_shape]) (simp_all add: lit_def apos_def)
  moreover have "filter (prefix (lit ''--max-time '')) (redirect_part config) = []"
    by (rule filter_other_prefix [OF redirect_shape]) (simp_all add: lit_def apos_def)
  moreover have "filter (prefix (lit ''--max-time '')) t = t"
    by (rule filter_same_prefix [OF timeout_shape [OF parts(6)]])
  moreover have "filter (prefix (lit ''--max-time '')) (include_part config) = []"
    by (rule filter_other_prefix [OF include_shape]) (simp_all add: lit_def apos_def)
  moreover have "filter (prefix (lit ''--max-time '')) u = []"
    by (rule filter_other_prefix [OF url_shape [OF parts(7)]]) (simp_all add: lit_def apos_def)
  moreover have "\<not> prefix (lit ''--max-time '') (lit ''curl'')"
    by (simp add: lit_def apos_def)
  ultimately have "filter (prefix (lit ''--max-time '')) ps = t"
    by (simp add: parts(8))
  with parts show ?thesis by simp
qed

lemma url_tokens:
  assumes "curl_parts uc sn config = Inr ps"
  shows "\<exists>u. url_part config = Inr u
           \<and> filter (prefix ([apos])) ps = u"
proof -
  from assms obtain m h f j r t u where parts:
    "method_part uc config = Inr m" "header_parts config = Inr h" "form_part config = Inr f"
    "json_body_part config = Inr j" "raw_body_part config = Inr r"
    "timeout_part sn config = Inr t" "url_part config = Inr u"
    "ps = [lit ''curl''] @ m @ h @ f @ j @ r @ gzip_part config @ insecure_part config
          @ redirect_part config @ t @ include_part config @ u"
    by (rule curl_parts_Inr)
  have "filter (prefix ([apos])) m = []"
    by (rule filter_other_prefix [OF method_shape [OF parts(1)]]) (simp_all add: lit_def apos_def)
  moreover have "filter (prefix ([apos])) h = []"
    by (rule filter_other_prefix [OF header_shape [OF parts(2)]]) (simp_all add: lit_def apos_def)
  moreover have "filter (prefix ([apos])) f = []"
    by (rule filter_other_prefix [OF form_shape [OF parts(3)]]) (simp_all add: lit_def apos_def)
  moreover have "filter (prefix ([apos])) j = []"
    by (rule filter_other_prefix [OF json_shape [OF parts(4)]]) (simp_all add: lit_def apos_def)
  moreover have "filter (prefix ([apos])) r = []"
    by (rule filter_other_prefix [OF raw_shape [OF parts(5)]]) (simp_all add: lit_def apos_def)
  moreover have "filter (prefix ([apos])) (gzip_part config) = []"
    by (rule filter_other_prefix [OF gzip_shape]) (simp_all add: lit_def apos_def)
  moreover have "filter (prefix ([apos])) (insecure_part config) = []"
    by (rule filter_other_prefix [OF insecure_shape]) (simp_all add: lit_def apos_def)
  moreover have "filter (prefix ([apos])) (redirect_part config) = []"
    by (rule filter_other_prefix [OF redirect_shape]) (simp_all add: lit_def apos_def)
  moreover have "filter (prefix ([apos])) t = []"
    by (rule filter_other_prefix [OF timeout_shape [OF parts(6)]]) (simp_all add: lit_def apos_def)
  moreover have "filter (prefix ([apos])) (include_part config) = []"
    by (rule filter_other_prefix [OF include_shape]) (simp_all add: lit_def apos_def)
  moreover have "filter (prefix ([apos])) u = u"
    by (rule filter_same_prefix [OF url_shape [OF parts(7)]])
  moreover have "\<not> prefix ([apos]) (lit ''curl'')"
    by (simp add: lit_def apos_def)
  ultimately have "filter (prefix ([apos])) ps = u"
    by (simp add: parts(8))
  with parts show ?thesis by simp
qed

lemma insecure_token:
  assumes "curl_parts uc sn config = Inr ps"
  shows "lit ''-k'' \<in> set ps \<longleftrightarrow> lit ''-k'' \<in> set (insecure_part config)"
proof -
  from assms obtain m h f j r t u where parts:
    "method_part uc config = Inr m" "header_parts config = Inr h" "form_part config = Inr f"
    "json_body_part config = Inr j" "raw_body_part config = Inr r"
    "timeout_part sn config = Inr t" "url_part config = Inr u"
    "ps = [lit ''curl''] @ m @ h @ f @ j @ r @ gzip_part config @ insecure_part config
          @ redirect_part config @ t @ include_part config @ u"
    by (rule curl_parts_Inr)
  have "lit ''-k'' \<notin> set m"
    by (rule notin_other_prefix [OF method_shape [OF parts(1)]]) (simp add: lit_def apos_def)
  moreover have "lit ''-k'' \<notin> set h"
    by (rule notin_other_prefix [OF header_shape [OF parts(2)]]) (simp add: lit_def apos_def)
  moreover have "lit ''-k'' \<notin> set f"
    by (rule notin_other_prefix [OF form_shape [OF parts(3)]]) (simp add: lit_def apos_def)
  moreover have "lit ''-k'' \<notin> set j"
    by (rule notin_other_prefix [OF json_shape [OF parts(4)]]) (simp add: lit_def apos_def)
  moreover have "lit ''-k'' \<notin> set r"
    by (rule notin_other_prefix [OF raw_shape [OF parts(5)]]) (simp add: lit_def apos_def)
  moreover have "lit ''-k'' \<notin> set (gzip_part config)"
    by (rule notin_other_prefix [OF gzip_shape]) (simp add: lit_def apos_def)
  moreover have "lit ''-k'' \<notin> set (redirect_part config)"
    by (rule notin_other_prefix [OF redirect_shape]) (simp add: lit_def apos_def)
  moreover have "lit ''-k'' \<notin> set t"
    by (rule notin_other_prefix [OF timeout_shape [OF parts(6)]]) (simp add: lit_def apos_def)
  moreover have "lit ''-k'' \<notin> set (include_part config)"
    by (rule notin_other_prefix [OF include_shape]) (simp add: lit_def apos_def)
  moreover have "lit ''-k'' \<notin> set u"
    by (rule notin_other_prefix [OF url_shape [OF parts(7)]]) (simp add: lit_def apos_def)
  moreover have "lit ''-k'' \<noteq> lit ''curl''"
    by (simp add: lit_def)
  ultimately show ?thesis
    by (simp add: parts(8))
qed

lemma url_token_last:
  assumes "curl_parts uc sn config = Inr ps" and "url_part config = Inr [x]"
  shows "last ps = x"
proof -
  from assms(1) obtain m h f j r t u where parts:
    "method_part uc config = Inr m" "header_parts config = Inr h" "form_part config = Inr f"
    "json_body_part config = Inr j" "raw_body_part config = Inr r"
    "timeout_part sn config = Inr t" "url_part config = Inr u"
    "ps = [lit ''curl''] @ m @ h @ f @ j @ r @ gzip_part config @ insecure_part config
          @ redirect_part config @ t @ include_part config @ u"
    by (rule curl_parts_Inr)
  from parts(7) assms(2) have "u = [x]" by simp
  then show ?thesis by (simp add: parts(8))
qed

subsection \<open>Upper-casing ASCII, and the ceiling\<close>

lemma ceiling_thousand:
  "\<lceil>(of_int ms :: 'a::floor_ceiling) / 1000\<rceil> = - ((- ms) div 1000)"
proof -
  have "\<lceil>(of_int ms :: 'a) / 1000\<rceil> = - \<lfloor>(of_int (- ms) :: 'a) / of_int 1000\<rfloor>"
    by (simp add: ceiling_def)
  also have "\<dots> = - ((- ms) div 1000)"
    by (simp only: floor_divide_of_int_eq)
  finally show ?thesis .
qed

text \<open>
  Below \<open>2^53\<close> the double quotient by 1000 has the ceiling (and the floor) of the exact
  quotient: the doubles there are at most \<open>2^-9\<close> apart, less than the \<open>1/1000\<close> by
  which a quotient that is no integer differs from one.
\<close>

lemma rne_lower:
  assumes "0 \<le> T"
  shows "U \<le> rne (1000 * U + T) 1000"
proof -
  have "(1000 * U + T) div 1000 = U + T div 1000" by simp
  moreover from assms have "0 \<le> T div 1000" by simp
  ultimately show ?thesis by (simp add: rne_def)
qed

lemma rne_upper:
  assumes "512 \<le> P" and "0 \<le> T" and "T \<le> 999 * P"
  shows "rne (1000 * U + T) 1000 < U + P"
proof -
  have d: "(1000 * U + T) div 1000 = U + T div 1000"
    and m: "(1000 * U + T) mod 1000 = T mod 1000" by simp_all
  from assms have "T div 1000 \<le> P - 1" by linarith
  moreover have "\<not> (1000 < 2 * (T mod 1000)) \<and> 2 * (T mod 1000) \<noteq> 1000" if "T div 1000 = P - 1"
  proof -
    have "T = 1000 * (T div 1000) + T mod 1000" by simp
    with that assms have "T mod 1000 \<le> 1000 - P" by linarith
    with assms(1) show ?thesis by linarith
  qed
  ultimately show ?thesis
    unfolding rne_def d m by (cases "T div 1000 = P - 1") auto
qed

lemma rne_above:
  assumes "512 \<le> P" and "P \<le> T"
  shows "U < rne (1000 * U + T) 1000"
proof -
  have d: "(1000 * U + T) div 1000 = U + T div 1000"
    and m: "(1000 * U + T) mod 1000 = T mod 1000" by simp_all
  show ?thesis
  proof (cases "1000 \<le> T")
    case True
    then have "1 \<le> T div 1000" by linarith
    then show ?thesis unfolding rne_def d m by auto
  next
    case False
    with assms have "T div 1000 = 0" "T mod 1000 = T" by simp_all
    with assms show ?thesis unfolding rne_def d m by auto
  qed
qed

lemma shift_ge_9:
  assumes "0 < a" and "a < 2 ^ 53"
  shows "9 \<le> 52 - (if 1000 * 2 ^ nat (bitlen a) \<le> 1024 * a then bitlen a - 10 else bitlen a - 11)"
proof -
  from assms(2) have "bitlen a \<le> 53"
    using bitlen_le_iff_power [of a 53] by simp
  then show ?thesis by auto
qed

lemma quotient_exact:
  assumes "0 < a" and "512 \<le> P"
  shows "(rne (a * P) 1000) div P = a div 1000"
    and "- ((- rne (a * P) 1000) div P) = - ((- a) div 1000)"
proof -
  define K where "K = a div 1000"
  define m where "m = a mod 1000"
  define U where "U = K * P"
  define T where "T = m * P"
  have a: "a = 1000 * K + m" by (simp add: K_def m_def)
  have m: "0 \<le> m" "m \<le> 999" by (simp_all add: m_def)
  from assms(2) have P: "0 < P" by simp
  have aP: "a * P = 1000 * U + T"
    by (simp add: a U_def T_def algebra_simps)
  from m P have T: "0 \<le> T" "T \<le> 999 * P"
    by (simp_all add: T_def mult_right_mono)
  have lo: "U \<le> rne (a * P) 1000" unfolding aP by (rule rne_lower [OF T(1)])
  have hi: "rne (a * P) 1000 < U + P" unfolding aP by (rule rne_upper [OF assms(2) T])
  from lo hi P show "(rne (a * P) 1000) div P = a div 1000"
    unfolding U_def K_def [symmetric]
    by (intro int_div_pos_eq [where r = "rne (a * P) 1000 - K * P"]) (simp_all add: algebra_simps)
  show "- ((- rne (a * P) 1000) div P) = - ((- a) div 1000)"
  proof (cases "m = 0")
    case True
    then have "a * P = 1000 * U" by (simp add: aP T_def)
    then have r: "rne (a * P) 1000 = U" by (simp add: rne_def)
    from True a have "(- a) div 1000 = - K" by simp
    moreover from P have "(- (K * P)) div P = - K"
      by (simp flip: mult_minus_left)
    ultimately show ?thesis using r by (simp add: U_def)
  next
    case False
    with m have "1 \<le> m" by simp
    with P have "P \<le> T" unfolding T_def by (metis mult.commute mult_le_cancel_left_pos mult.right_neutral)
    from rne_above [OF assms(2) this] have lo': "U < rne (a * P) 1000" unfolding aP .
    have "(- a) div 1000 = - (K + 1)"
    proof -
      from a have "- a = 1000 * (- (K + 1)) + (1000 - m)" by simp
      moreover from m \<open>1 \<le> m\<close> have "0 \<le> 1000 - m" "1000 - m < 1000" by simp_all
      ultimately show ?thesis by (metis int_div_pos_eq mult.commute)
    qed
    moreover have "(- rne (a * P) 1000) div P = - (K + 1)"
    proof (rule int_div_pos_eq [where r = "(K + 1) * P - rne (a * P) 1000"])
      show "- rne (a * P) 1000 = P * - (K + 1) + ((K + 1) * P - rne (a * P) 1000)"
        by (simp add: algebra_simps)
      from hi show "0 \<le> (K + 1) * P - rne (a * P) 1000"
        by (simp add: U_def algebra_simps)
      from lo' show "(K + 1) * P - rne (a * P) 1000 < P"
        by (simp add: U_def algebra_simps)
    qed
    ultimately show ?thesis by simp
  qed
qed

lemma round_double_safe: "m < 2 ^ 53 \<Longrightarrow> round_double m = m"
  using bitlen_le_iff_power [of m 53] by (simp add: round_double_def)

lemma timeoutSec_safe:
  assumes "\<bar>ms\<bar> < 2 ^ 53"
  shows "timeoutSec ms = - ((- ms) div 1000)"
proof (cases "ms = 0")
  case True
  then show ?thesis
    by (simp add: timeoutSec_def number_value_def ceil_quotient_1000_def round_double_def)
next
  case False
  define a where "a = \<bar>ms\<bar>"
  from False assms have a: "0 < a" "a < 2 ^ 53" by (simp_all add: a_def)
  have nv: "number_value ms = ms"
    using assms by (auto simp: number_value_def round_double_safe)
  define s where
    "s = 52 - (if 1000 * 2 ^ nat (bitlen a) \<le> 1024 * a then bitlen a - 10 else bitlen a - 11)"
  have s: "9 \<le> s" unfolding s_def by (rule shift_ge_9 [OF a])
  then have "(2::int) ^ 9 \<le> 2 ^ nat s"
    by (intro power_increasing) simp_all
  then have P: "512 \<le> (2::int) ^ nat s" by simp
  note q = quotient_exact [OF a(1) P]
  have "ceil_quotient_1000 ms
      = (if 0 < ms then - ((- rne (a * 2 ^ nat s) 1000) div 2 ^ nat s)
         else - (rne (a * 2 ^ nat s) 1000 div 2 ^ nat s))"
    using False s unfolding ceil_quotient_1000_def Let_def a_def [symmetric] s_def [symmetric]
    by simp
  also have "\<dots> = - ((- ms) div 1000)"
    using q False by (auto simp: a_def)
  finally show ?thesis by (simp add: timeoutSec_def nv)
qed

lemma timeoutSec_ceiling:
  "\<bar>ms\<bar> < 2 ^ 53 \<Longrightarrow> timeoutSec ms = \<lceil>real_of_int ms / 1000\<rceil>"
  by (simp only: timeoutSec_safe ceiling_thousand)

lemma ascii_not_lead: "c < 0x80 \<Longrightarrow> \<not> is_lead c"
  by (simp add: is_lead_def word_le_nat_alt word_less_nat_alt)

lemma StringToCodePoints_ascii:
  "list_all (\<lambda>c. c < 0x80) s \<Longrightarrow> StringToCodePoints s = map uint s"
  by (induction s rule: StringToCodePoints.induct) (simp_all add: ascii_not_lead)

lemma uint_ascii: "c < (0x80 :: 16 word) \<Longrightarrow> uint c < 0x80"
  by (simp add: word_less_def)

lemma toUpperCase_ascii:
  assumes "list_all (\<lambda>c. c < 0x80) s"
  shows "toUpperCase uc s = map (\<lambda>c. of_int (ascii_upper (uint c))) s"
proof -
  have "concat (map utf16 (concat (map (upper_cp uc) (map uint s))))
        = map (\<lambda>c. of_int (ascii_upper (uint c))) s"
    using assms
  proof (induction s)
    case Nil
    then show ?case by simp
  next
    case (Cons c s)
    from Cons.prems have c: "uint c < 0x80" by (simp add: uint_ascii)
    then have "ascii_upper (uint c) < 0x10000" by (simp add: ascii_upper_def)
    with c Cons show ?case by (simp add: upper_cp_def utf16_def)
  qed
  then show ?thesis
    by (simp add: toUpperCase_def StringToCodePoints_ascii [OF assms])
qed

lemma toUpperCase_GET: "toUpperCase uc (lit ''GET'') = lit ''GET''"
  by (subst toUpperCase_ascii) (simp_all add: lit_def ascii_upper_def)



subsection \<open>Entries, form pairs and the body token\<close>

lemma own_entries_length: "length (own_entries kvs) = length kvs"
  by (simp add: own_entries_def sum_length_filter_compl)

lemma own_entries_no_index:
  "list_all (\<lambda>kv. \<not> is_array_index (fst kv)) kvs \<Longrightarrow> own_entries kvs = kvs"
  by (simp add: own_entries_def list_all_iff filter_empty_conv)

lemma form_pairs_length: "form_pairs es = Inr ps \<Longrightarrow> length ps = length es"
  by (induction es arbitrary: ps rule: form_pairs.induct)
     (auto simp: and_then_Inr_iff)

lemma body_flag_Inr:
  assumes "body_flag body = Inr f"
  shows "\<exists>bodyStr. (case body of JStr s \<Rightarrow> Some s | _ \<Rightarrow> JSON_stringify body) = Some bodyStr
           \<and> f = [lit ''-d '' @ [apos] @ replace_apos bodyStr @ [apos]]"
  using assms by (auto simp: body_flag_def data_flag_def split: option.splits)

lemma url_part_Inr:
  assumes "url_part config = Inr u"
  shows "(truthy (resolved_url config)
          \<and> (\<exists>s. ToString (resolved_url config) = Inr s \<and> u = [[apos] @ s @ [apos]]))
       \<or> (\<not> truthy (resolved_url config) \<and> u = [])"
  using assms by (auto simp: url_part_def and_then_Inr_iff split: if_splits)

lemma own_entries_set: "set (own_entries kvs) = set kvs"
  by (auto simp: own_entries_def)

lemma header_flags_Inr:
  "header_flags es = Inr h \<Longrightarrow>
   \<exists>vals. map snd es = map JStr vals \<and> h = map2 header_flag (map fst es) vals"
proof (induction es arbitrary: h rule: header_flags.induct)
  case 1
  then show ?case by simp
next
  case (2 key val es)
  from "2.prems" obtain s h' where val: "val = JStr s" and h': "header_flags es = Inr h'"
    and h: "h = header_flag key s # h'"
    by (auto simp: and_then_Inr_iff split: jsval.splits)
  from "2.IH" [OF val h'] obtain vals where "map snd es = map JStr vals"
    "h' = map2 header_flag (map fst es) vals" by blast
  with val h have "map snd ((key, val) # es) = map JStr (s # vals)
      \<and> h = map2 header_flag (map fst ((key, val) # es)) (s # vals)" by simp
  then show ?case by blast
qed

lemma form_pairs_Inr:
  "form_pairs es = Inr ps \<Longrightarrow>
   list_all2 (\<lambda>kv p. \<exists>ek ev. encodeURIComponent (JStr (fst kv)) = Inr ek
                        \<and> encodeURIComponent (nullish_empty (snd kv)) = Inr ev
                        \<and> p = ek @ lit ''='' @ ev) es ps"
  by (induction es arbitrary: ps rule: form_pairs.induct)
     (auto simp: and_then_Inr_iff)

subsection \<open>When every step returns\<close>

lemma digit_unit_ascii:
  assumes "0 \<le> d" and "d < 10"
  shows "(word_of_int (48 + d) :: 16 word) < 0x80"
proof -
  from assms have "d = 0 \<or> d = 1 \<or> d = 2 \<or> d = 3 \<or> d = 4 \<or> d = 5 \<or> d = 6 \<or> d = 7
      \<or> d = 8 \<or> d = 9"
    by arith
  then show ?thesis by (elim disjE) simp_all
qed

lemma digits_ascii: "0 \<le> n \<Longrightarrow> list_all (\<lambda>c. c < 0x80) (digits n)"
proof (induction n rule: digits.induct)
  case (1 n)
  show ?case
  proof (cases "n < 10")
    case True
    with "1.prems" digit_unit_ascii [of n] show ?thesis
      by (subst digits.simps) simp
  next
    case False
    then have "0 \<le> n div 10" "0 \<le> n mod 10" "n mod 10 < 10" by simp_all
    with False "1.IH" digit_unit_ascii [of "n mod 10"] show ?thesis
      by (subst digits.simps) simp
  qed
qed

lemma rne_nonneg: "0 \<le> a \<Longrightarrow> 0 < d \<Longrightarrow> 0 \<le> rne a d"
  by (simp add: rne_def pos_imp_zdiv_nonneg_iff)

lemma round_double_nonneg: "0 \<le> m \<Longrightarrow> 0 \<le> round_double m"
  by (simp add: round_double_def rne_nonneg)

lemma candidate_nonneg:
  assumes "0 \<le> x" and "0 < p" and "candidate x p = Some v"
  shows "0 \<le> v"
proof -
  from assms(1,2) have "0 \<le> (x div p) * p" "0 \<le> (x div p) * p + p"
    by (simp_all add: pos_imp_zdiv_nonneg_iff)
  with assms(3) show ?thesis
    by (auto simp: candidate_def Let_def split: if_splits)
qed

lemma shortest_nonneg: "0 \<le> x \<Longrightarrow> 0 \<le> shortest x e"
proof (induction e)
  case 0
  then show ?case by simp
next
  case (Suc e)
  show ?case
  proof (cases "candidate x (10 ^ Suc e)")
    case None
    with Suc show ?thesis by simp
  next
    case (Some v)
    have "(0::int) < 10 ^ Suc e" by simp
    from candidate_nonneg [OF Suc.prems this Some] Some show ?thesis by simp
  qed
qed

lemma strip_zeros_all: "list_all Q s \<Longrightarrow> list_all Q (strip_zeros s)"
  unfolding strip_zeros_def list_all_iff
  by (metis set_dropWhileD set_rev)

lemma render_positive_ascii:
  assumes "0 \<le> x"
  shows "list_all (\<lambda>c. c < 0x80) (render_positive x)"
proof -
  define ds where "ds = digits (shortest x (length (digits x) - 1))"
  have ds: "list_all (\<lambda>c. c < 0x80) ds"
    unfolding ds_def by (rule digits_ascii [OF shortest_nonneg [OF assms]])
  have lead: "list_all (\<lambda>c. c < 0x80)
      (case strip_zeros ds of [] \<Rightarrow> [] | [d] \<Rightarrow> [d] | d # more \<Rightarrow> d # 0x2E # more)"
    using strip_zeros_all [OF ds] by (auto split: list.splits)
  have ex: "list_all (\<lambda>c. c < 0x80) (digits (int (length ds) - 1))" if "\<not> length ds \<le> 21"
    using that by (intro digits_ascii) auto
  have e: "list_all (\<lambda>c. c < 0x80) (lit ''e+'')" by (simp add: lit_def)
  from ds lead ex e show ?thesis
    unfolding render_positive_def ds_def [symmetric] Let_def by simp
qed

lemma Number_toString_ascii: "list_all (\<lambda>c. c < 0x80) (Number_toString n)"
proof -
  have "list_all (\<lambda>c. c < 0x80) (lit ''0'')" "list_all (\<lambda>c. c < 0x80) (lit ''-'')"
    "list_all (\<lambda>c. c < 0x80) (lit ''-Infinity'')" "list_all (\<lambda>c. c < 0x80) (lit ''Infinity'')"
    by (simp_all add: lit_def)
  moreover have "list_all (\<lambda>c. c < 0x80) (render_positive (round_double \<bar>n\<bar>))"
    by (rule render_positive_ascii [OF round_double_nonneg]) simp
  ultimately show ?thesis by (simp add: Number_toString_def)
qed

lemma ascii_well_formed:
  assumes "list_all (\<lambda>c. c < 0x80) s"
  shows "well_formed_string s"
proof -
  have "\<not> is_surrogate (uint c)" if "c < 0x80" for c :: "16 word"
    using uint_ascii [OF that] by (simp add: is_surrogate_def)
  with assms show ?thesis
    by (simp add: well_formed_string_def StringToCodePoints_ascii list_all_iff)
qed

lemma Encode_total:
  "list_all (\<lambda>cp. \<not> is_surrogate cp) cps \<Longrightarrow> \<exists>r. Encode cps = Inr r"
  by (induction cps) auto

lemma encodeURIComponent_string:
  "well_formed_string s \<Longrightarrow> \<exists>r. encodeURIComponent (JStr s) = Inr r"
  by (simp add: encodeURIComponent_def well_formed_string_def Encode_total)

lemma ToString_primitive: "is_primitive v \<Longrightarrow> \<exists>s. ToString v = Inr s"
  by (cases v) (simp_all add: is_primitive_def)

lemma form_value_total:
  assumes "form_value_ok v"
  shows "\<exists>r. encodeURIComponent (nullish_empty v) = Inr r"
proof (cases v)
  case (JBool b)
  have "well_formed_string (lit ''true'')" "well_formed_string (lit ''false'')"
    by (rule ascii_well_formed, simp add: lit_def)+
  then have "well_formed_string (if b then lit ''true'' else lit ''false'')" by simp
  then show ?thesis
    unfolding JBool
    by (simp add: nullish_empty_def encodeURIComponent_def well_formed_string_def Encode_total)
next
  case (JNum n)
  have "well_formed_string (Number_toString n)"
    by (rule ascii_well_formed [OF Number_toString_ascii])
  then show ?thesis
    unfolding JNum
    by (simp add: nullish_empty_def encodeURIComponent_def well_formed_string_def Encode_total)
next
  case (JStr s)
  with assms show ?thesis
    by (simp add: nullish_empty_def form_value_ok_def encodeURIComponent_string)
qed (use assms in \<open>simp_all add: nullish_empty_def form_value_ok_def is_primitive_def
       encodeURIComponent_def\<close>)

lemma form_pairs_total:
  "list_all (\<lambda>kv. well_formed_string (fst kv) \<and> form_value_ok (snd kv)) es
   \<Longrightarrow> \<exists>ps. form_pairs es = Inr ps"
proof (induction es rule: form_pairs.induct)
  case 1
  then show ?case by simp
next
  case (2 key val es)
  from "2.prems" obtain ek ev ps where "encodeURIComponent (JStr key) = Inr ek"
    "encodeURIComponent (nullish_empty val) = Inr ev" "form_pairs es = Inr ps"
    using encodeURIComponent_string [of key] form_value_total [of val] "2.IH" by auto
  then show ?case by simp
qed

lemma header_flags_total:
  "list_all (\<lambda>kv. is_string (snd kv)) es \<Longrightarrow> \<exists>h. header_flags es = Inr h"
  by (induction es rule: header_flags.induct)
     (auto simp: is_string_def split: jsval.splits)

lemma method_total:
  assumes "is_string (Get config ''method'') \<or> \<not> truthy (Get config ''method'')"
  shows "\<exists>m. method_part uc config = Inr m"
  using assms by (auto simp: method_part_def is_string_def Let_def split: jsval.splits)

lemma header_total:
  assumes "headers_ok (Get config ''headers'')"
  shows "\<exists>h. header_parts config = Inr h"
proof (cases "Get config ''headers''")
  case (JObj hs)
  with assms have "list_all (\<lambda>kv. is_string (snd kv)) (own_entries hs)"
    by (simp add: headers_ok_def list_all_iff own_entries_set)
  from header_flags_total [OF this] JObj show ?thesis
    by (simp add: header_parts_def)
qed (use assms in \<open>simp_all add: headers_ok_def header_parts_def\<close>)

lemma form_total:
  assumes "form_ok (Get config ''form'')"
  shows "\<exists>f. form_part config = Inr f"
proof (cases "Get config ''form''")
  case (JObj fs)
  with assms have "list_all (\<lambda>kv. well_formed_string (fst kv) \<and> form_value_ok (snd kv)) (own_entries fs)"
    by (simp add: form_ok_def list_all_iff own_entries_set)
  from form_pairs_total [OF this] JObj show ?thesis
    by (auto simp: form_part_def)
qed (use assms in \<open>simp_all add: form_ok_def form_part_def\<close>)

lemma body_flag_total: "truthy body \<Longrightarrow> \<exists>f. body_flag body = Inr f"
  by (cases body) (simp_all add: body_flag_def JSON_stringify_def)

lemma json_body_total: "\<exists>j. json_body_part config = Inr j"
  using body_flag_total [of "Get config ''body''"] by (simp add: json_body_part_def)

lemma raw_body_total: "\<exists>r. raw_body_part config = Inr r"
  using body_flag_total [of "Get config ''body''"] by (simp add: raw_body_part_def)

lemma timeout_total:
  assumes "is_number (Get config ''timeout'') \<or> \<not> truthy (Get config ''timeout'')"
  shows "\<exists>t. timeout_part sn config = Inr t"
  using assms by (auto simp: timeout_part_def is_number_def split: jsval.splits)

lemma url_total:
  assumes "is_primitive (resolved_url config)"
  shows "\<exists>u. url_part config = Inr u"
  using ToString_primitive [OF assms] by (auto simp: url_part_def)

lemma curl_parts_total:
  assumes "wf_config config"
  shows "\<exists>ps. curl_parts uc sn config = Inr ps"
proof -
  from assms have obj: "config \<noteq> JNull" "config \<noteq> JUndefined"
    by (auto simp: wf_config_def is_object_def)
  from assms obtain m h f t u where "method_part uc config = Inr m"
    "header_parts config = Inr h" "form_part config = Inr f" "timeout_part sn config = Inr t"
    "url_part config = Inr u"
    unfolding wf_config_def
    using method_total [of config uc] header_total [of config] form_total [of config]
      timeout_total [of config sn] url_total [of config] by blast
  moreover obtain j r where "json_body_part config = Inr j" "raw_body_part config = Inr r"
    using json_body_total raw_body_total by blast
  ultimately show ?thesis using obj by (simp add: curl_parts_def)
qed

lemma unknown_fields_only:
  assumes "list_all (\<lambda>name. map_of kvs (lit name) = None) known_fields"
  shows "curl_parts uc sn (JObj kvs) = Inr [lit ''curl'']"
proof -
  from assms have "Get (JObj kvs) ''method'' = JUndefined" "Get (JObj kvs) ''headers'' = JUndefined"
    "Get (JObj kvs) ''form'' = JUndefined" "Get (JObj kvs) ''body'' = JUndefined"
    "Get (JObj kvs) ''json'' = JUndefined" "Get (JObj kvs) ''gzip'' = JUndefined"
    "Get (JObj kvs) ''rejectUnauthorized'' = JUndefined"
    "Get (JObj kvs) ''followRedirect'' = JUndefined"
    "Get (JObj kvs) ''followAllRedirects'' = JUndefined"
    "Get (JObj kvs) ''timeout'' = JUndefined"
    "Get (JObj kvs) ''resolveWithFullResponse'' = JUndefined"
    "Get (JObj kvs) ''uri'' = JUndefined" "Get (JObj kvs) ''url'' = JUndefined"
    by (simp_all add: known_fields_def Get_def)
  then show ?thesis
    by (simp add: curl_parts_def method_part_def toUpperCase_GET header_parts_def form_part_def
        json_body_part_def raw_body_part_def gzip_part_def insecure_part_def redirect_part_def
        timeout_part_def include_part_def url_part_def resolved_url_def)
qed

section \<open>The claims\<close>

text \<open>
  In the theorems below \<open>ps\<close> is the array \<^verbatim>\<open>parts\<close> of a call that returns; the string
  returned is \<open>join separator ps\<close>. A flag of the output is a token of \<open>ps\<close>, recognised
  by how it begins.
\<close>

text \<open>
  Claim C1, as stated, fails when the body is present but falsy: the JSON body step is
  guarded by \<^verbatim>\<open>config.body && config.json\<close>. For
  \<^verbatim>\<open>{"form":{"a":"1"},"body":"","json":true}\<close> the output has one \<^verbatim>\<open>-d\<close> token, that of
  the form.
\<close>

theorem C1_form_and_json_body_counterexample:
  "Get (JObj [(lit ''form'', JObj [(lit ''a'', JStr (lit ''1''))]), (lit ''body'', JStr []),
              (lit ''json'', JBool True)]) ''body'' = JStr []
   \<and> curl_parts (\<lambda>c. [c]) (\<lambda>s. s)
        (JObj [(lit ''form'', JObj [(lit ''a'', JStr (lit ''1''))]), (lit ''body'', JStr []),
               (lit ''json'', JBool True)])
       = Inr [lit ''curl'', lit ''-d '' @ [apos] @ lit ''a=1'' @ [apos]]
   \<and> length (filter (prefix (lit ''-d '')) [lit ''curl'', lit ''-d '' @ [apos] @ lit ''a=1'' @ [apos]]) = 1"
  by code_simp

text \<open>
  Claim C1, amended. The three body steps are independent conditionals. With \<^verbatim>\<open>form\<close> a
  mapping that has an entry, \<^verbatim>\<open>body\<close> truthy (present and not the empty string, zero,
  \<^verbatim>\<open>false\<close> or \<^verbatim>\<open>null\<close>) and \<^verbatim>\<open>json\<close> truthy, the output has exactly two \<^verbatim>\<open>-d\<close>
  tokens: first the form pairs joined with \<^verbatim>\<open>&\<close>, then the body (itself when a string,
  else its JSON text) with the apostrophes replaced.
\<close>

theorem C1_form_and_json_body:
  assumes "curl_parts uc sn config = Inr ps"
    and "Get config ''form'' = JObj fs" and "fs \<noteq> []"
    and "truthy (Get config ''body'')" and "truthy (Get config ''json'')"
  shows "\<exists>pairs bodyStr.
           form_pairs (own_entries fs) = Inr pairs \<and> pairs \<noteq> []
         \<and> (case Get config ''body'' of JStr s \<Rightarrow> Some s | _ \<Rightarrow> JSON_stringify (Get config ''body''))
             = Some bodyStr
         \<and> filter (prefix (lit ''-d '')) ps
             = [lit ''-d '' @ [apos] @ join (lit ''&'') pairs @ [apos],
                lit ''-d '' @ [apos] @ replace_apos bodyStr @ [apos]]"
proof -
  from data_tokens [OF assms(1)] obtain f j r where f: "form_part config = Inr f"
    and j: "json_body_part config = Inr j" and r: "raw_body_part config = Inr r"
    and d: "filter (prefix (lit ''-d '')) ps = f @ j @ r" by blast
  from f assms(2) obtain pairs where pairs: "form_pairs (own_entries fs) = Inr pairs"
    and f': "f = (if length pairs > 0 then [data_flag (join (lit ''&'') pairs)] else [])"
    by (auto simp: form_part_def and_then_Inr_iff)
  from form_pairs_length [OF pairs] assms(3) have ne: "pairs \<noteq> []"
    by (auto simp: own_entries_length)
  from j assms(4,5) have "body_flag (Get config ''body'') = Inr j"
    by (simp add: json_body_part_def)
  from body_flag_Inr [OF this] obtain bodyStr where
    b: "(case Get config ''body'' of JStr s \<Rightarrow> Some s | _ \<Rightarrow> JSON_stringify (Get config ''body''))
        = Some bodyStr"
    and j': "j = [lit ''-d '' @ [apos] @ replace_apos bodyStr @ [apos]]" by blast
  from r assms(5) have "r = []" by (simp add: raw_body_part_def)
  with d f' ne j' have "filter (prefix (lit ''-d '')) ps
      = [lit ''-d '' @ [apos] @ join (lit ''&'') pairs @ [apos],
         lit ''-d '' @ [apos] @ replace_apos bodyStr @ [apos]]"
    by (simp add: data_flag_def)
  with pairs ne b show ?thesis by blast
qed

text \<open>The witness for C1: \<^verbatim>\<open>{"form":{"a":"1"},"body":{"n":30},"json":true}\<close>.\<close>

theorem C1_form_and_json_body_witness:
  "curl_parts (\<lambda>c. [c]) (\<lambda>s. s)
     (JObj [(lit ''form'', JObj [(lit ''a'', JStr (lit ''1''))]),
            (lit ''body'', JObj [(lit ''n'', JNum 30)]), (lit ''json'', JBool True)])
     = Inr [lit ''curl'', lit ''-d '' @ [apos] @ lit ''a=1'' @ [apos],
            lit ''-d '' @ [apos] @ [0x7B, dquote, 0x6E, dquote, 0x3A, 0x33, 0x30, 0x7D] @ [apos]]
   \<and> length (filter (prefix (lit ''-d ''))
        [lit ''curl'', lit ''-d '' @ [apos] @ lit ''a=1'' @ [apos],
         lit ''-d '' @ [apos] @ [0x7B, dquote, 0x6E, dquote, 0x3A, 0x33, 0x30, 0x7D] @ [apos]]) = 2"
proof -
  let ?cfg = "JObj [(lit ''form'', JObj [(lit ''a'', JStr (lit ''1''))]),
            (lit ''body'', JObj [(lit ''n'', JNum 30)]), (lit ''json'', JBool True)]"
  have h: "curl_parts (\<lambda>c. [c]) (\<lambda>s. s) ?cfg
     = Inr [lit ''curl'', lit ''-d '' @ [apos] @ lit ''a=1'' @ [apos],
            lit ''-d '' @ [apos] @ [0x7B, dquote, 0x6E, dquote, 0x3A, 0x33, 0x30, 0x7D] @ [apos]]"
    by code_simp
  have g: "Get ?cfg ''form'' = JObj [(lit ''a'', JStr (lit ''1''))]"
    "truthy (Get ?cfg ''body'')" "truthy (Get ?cfg ''json'')"
    by code_simp+
  from C1_form_and_json_body [OF h g(1) _ g(2,3)] h show ?thesis by auto
qed

text \<open>
  Claim C2, as stated, fails: the raw body step is guarded by \<^verbatim>\<open>!config.form\<close>, and an
  empty mapping is truthy. For \<^verbatim>\<open>{"form":{},"body":"x"}\<close> the output is \<^verbatim>\<open>curl\<close>
  alone, with no \<^verbatim>\<open>-d\<close> token.
\<close>

theorem C2_raw_body_counterexample:
  "Get (JObj [(lit ''form'', JObj []), (lit ''body'', JStr (lit ''x''))]) ''form'' = JObj []
   \<and> Get (JObj [(lit ''form'', JObj []), (lit ''body'', JStr (lit ''x''))]) ''body'' = JStr (lit ''x'')
   \<and> Get (JObj [(lit ''form'', JObj []), (lit ''body'', JStr (lit ''x''))]) ''json'' = JUndefined
   \<and> curl_parts (\<lambda>c. [c]) (\<lambda>s. s) (JObj [(lit ''form'', JObj []), (lit ''body'', JStr (lit ''x''))])
       = Inr [lit ''curl'']
   \<and> filter (prefix (lit ''-d '')) [lit ''curl''] = []
   \<and> jsonToCurl (\<lambda>c. [c]) (\<lambda>s. s) (JObj [(lit ''form'', JObj []), (lit ''body'', JStr (lit ''x''))])
       = Inr (lit ''curl'')"
  by code_simp

text \<open>
  Claim C2, amended. With \<^verbatim>\<open>body\<close> present (truthy) and \<^verbatim>\<open>json\<close> falsy: when
  \<^verbatim>\<open>form\<close> is absent or otherwise falsy, the output has exactly one \<^verbatim>\<open>-d\<close> token,
  whose payload is the body (itself when a string, else its compact JSON text) with every
  apostrophe replaced by the four code units of \<^verbatim>\<open>'\''\<close>; when \<^verbatim>\<open>form\<close> is truthy,
  which an empty mapping is, the body is not emitted and the only \<^verbatim>\<open>-d\<close> tokens are
  those of the form step (none for an empty mapping).
\<close>

theorem C2_raw_body:
  assumes "curl_parts uc sn config = Inr ps"
    and "truthy (Get config ''body'')" and "\<not> truthy (Get config ''json'')"
  shows "(\<not> truthy (Get config ''form'') \<longrightarrow>
           (\<exists>bodyStr.
              (case Get config ''body'' of JStr s \<Rightarrow> Some s | _ \<Rightarrow> JSON_stringify (Get config ''body''))
                = Some bodyStr
            \<and> filter (prefix (lit ''-d '')) ps = [lit ''-d '' @ [apos] @ replace_apos bodyStr @ [apos]]))
       \<and> (truthy (Get config ''form'') \<longrightarrow>
           (\<exists>f. form_part config = Inr f \<and> filter (prefix (lit ''-d '')) ps = f))
       \<and> truthy (JObj []) \<and> form_part (JObj [(lit ''form'', JObj [])]) = Inr []"
proof -
  from data_tokens [OF assms(1)] obtain f j r where f: "form_part config = Inr f"
    and j: "json_body_part config = Inr j" and r: "raw_body_part config = Inr r"
    and d: "filter (prefix (lit ''-d '')) ps = f @ j @ r" by blast
  from j assms(3) have j': "j = []" by (simp add: json_body_part_def)
  have 1: "\<exists>bodyStr.
              (case Get config ''body'' of JStr s \<Rightarrow> Some s | _ \<Rightarrow> JSON_stringify (Get config ''body''))
                = Some bodyStr
            \<and> filter (prefix (lit ''-d '')) ps = [lit ''-d '' @ [apos] @ replace_apos bodyStr @ [apos]]"
    if nf: "\<not> truthy (Get config ''form'')"
  proof -
    from f nf have "f = []" by (simp add: form_part_def)
    moreover from r nf assms(2,3) have "body_flag (Get config ''body'') = Inr r"
      by (simp add: raw_body_part_def)
    from body_flag_Inr [OF this] obtain bodyStr where
      "(case Get config ''body'' of JStr s \<Rightarrow> Some s | _ \<Rightarrow> JSON_stringify (Get config ''body''))
        = Some bodyStr" "r = [lit ''-d '' @ [apos] @ replace_apos bodyStr @ [apos]]" by blast
    ultimately show ?thesis using d j' by auto
  qed
  have 2: "\<exists>f. form_part config = Inr f \<and> filter (prefix (lit ''-d '')) ps = f"
    if "truthy (Get config ''form'')"
  proof -
    from r that have "r = []" by (simp add: raw_body_part_def)
    with d j' f show ?thesis by simp
  qed
  have 3: "form_part (JObj [(lit ''form'', JObj [])]) = Inr []"
    by code_simp
  from 1 2 3 show ?thesis by simp
qed

text \<open>The witness for C2: \<^verbatim>\<open>{"body":["it's"]}\<close>.\<close>

theorem C2_raw_body_witness:
  "curl_parts (\<lambda>c. [c]) (\<lambda>s. s) (JObj [(lit ''body'', JArr [JStr (lit ''it's'')])])
     = Inr [lit ''curl'', lit ''-d '' @ [apos] @ [0x5B, dquote] @ lit ''it'' @ [apos, bsl, apos, apos] @ lit ''s'' @ [dquote, 0x5D] @ [apos]]
   \<and> filter (prefix (lit ''-d ''))
        [lit ''curl'', lit ''-d '' @ [apos] @ [0x5B, dquote] @ lit ''it'' @ [apos, bsl, apos, apos] @ lit ''s'' @ [dquote, 0x5D] @ [apos]]
       = [lit ''-d '' @ [apos] @ [0x5B, dquote] @ lit ''it'' @ [apos, bsl, apos, apos] @ lit ''s'' @ [dquote, 0x5D] @ [apos]]
   \<and> replace_apos ([0x5B, dquote] @ lit ''it's'' @ [dquote, 0x5D])
       = [0x5B, dquote] @ lit ''it'' @ [apos, bsl, apos, apos] @ lit ''s'' @ [dquote, 0x5D]
   \<and> JSON_stringify (JArr [JStr (lit ''it's'')]) = Some ([0x5B, dquote] @ lit ''it's'' @ [dquote, 0x5D])"
proof -
  let ?cfg = "JObj [(lit ''body'', JArr [JStr (lit ''it's'')])]"
  have h: "curl_parts (\<lambda>c. [c]) (\<lambda>s. s) ?cfg
     = Inr [lit ''curl'', lit ''-d '' @ [apos] @ [0x5B, dquote] @ lit ''it'' @ [apos, bsl, apos, apos] @ lit ''s'' @ [dquote, 0x5D] @ [apos]]"
    by code_simp
  have g: "truthy (Get ?cfg ''body'')" "\<not> truthy (Get ?cfg ''json'')" "\<not> truthy (Get ?cfg ''form'')"
    by code_simp+
  have e: "replace_apos ([0x5B, dquote] @ lit ''it's'' @ [dquote, 0x5D])
       = [0x5B, dquote] @ lit ''it'' @ [apos, bsl, apos, apos] @ lit ''s'' @ [dquote, 0x5D]"
    "JSON_stringify (JArr [JStr (lit ''it's'')]) = Some ([0x5B, dquote] @ lit ''it's'' @ [dquote, 0x5D])"
    by code_simp+
  from C2_raw_body [OF h g(1,2)] g(3) e
  have "filter (prefix (lit ''-d ''))
        [lit ''curl'', lit ''-d '' @ [apos] @ [0x5B, dquote] @ lit ''it'' @ [apos, bsl, apos, apos] @ lit ''s'' @ [dquote, 0x5D] @ [apos]]
       = [lit ''-d '' @ [apos] @ [0x5B, dquote] @ lit ''it'' @ [apos, bsl, apos, apos] @ lit ''s'' @ [dquote, 0x5D] @ [apos]]"
    by (auto simp: JSON_stringify_def)
  with h e show ?thesis by blast
qed

text \<open>
  Claim C3, as stated, fails on the order: \<^verbatim>\<open>Object.entries\<close> lists the names that are
  array indices first, in ascending numeric order, whatever their place in the input. For
  \<^verbatim>\<open>{"headers":{"b":"x","1":"y"}}\<close> the token for \<^verbatim>\<open>1\<close> comes before the token for
  \<^verbatim>\<open>b\<close>.
\<close>

theorem C3_header_flags_counterexample:
  "curl_parts (\<lambda>c. [c]) (\<lambda>s. s)
     (JObj [(lit ''headers'', JObj [(lit ''b'', JStr (lit ''x'')), (lit ''1'', JStr (lit ''y''))])])
     = Inr [lit ''curl'', lit ''-H '' @ [apos] @ lit ''1: y'' @ [apos],
            lit ''-H '' @ [apos] @ lit ''b: x'' @ [apos]]
   \<and> filter (prefix (lit ''-H ''))
        [lit ''curl'', lit ''-H '' @ [apos] @ lit ''1: y'' @ [apos],
         lit ''-H '' @ [apos] @ lit ''b: x'' @ [apos]]
       \<noteq> [lit ''-H '' @ [apos] @ lit ''b: x'' @ [apos], lit ''-H '' @ [apos] @ lit ''1: y'' @ [apos]]"
  by code_simp

text \<open>
  Claim C3, amended. For a header mapping the output has exactly one \<^verbatim>\<open>-H\<close> token for
  each entry, in the order of \<^verbatim>\<open>Object.entries\<close> (names that are array indices first,
  ascending, then the other names in insertion order; this is insertion order when no name
  is an array index). Each value is a string, and its token is \<^verbatim>\<open>-H '<name>: <value>'\<close>
  with every apostrophe of the value replaced by the four code units of \<^verbatim>\<open>'\''\<close>.
\<close>

theorem C3_header_flags:
  assumes "curl_parts uc sn config = Inr ps" and "Get config ''headers'' = JObj hs"
  shows "(\<exists>vals. map snd (own_entries hs) = map JStr vals
           \<and> filter (prefix (lit ''-H '')) ps
               = map2 (\<lambda>k v. lit ''-H '' @ [apos] @ k @ lit '': '' @ replace_apos v @ [apos])
                   (map fst (own_entries hs)) vals)
       \<and> length (filter (prefix (lit ''-H '')) ps) = length hs
       \<and> (list_all (\<lambda>kv. \<not> is_array_index (fst kv)) hs \<longrightarrow> own_entries hs = hs)
       \<and> (\<forall>v. replace_apos v = concat (map (\<lambda>c. if c = apos then [apos, bsl, apos, apos] else [c]) v))"
proof -
  from header_tokens [OF assms(1)] obtain h where h: "header_parts config = Inr h"
    and f: "filter (prefix (lit ''-H '')) ps = h" by blast
  from h assms(2) have "header_flags (own_entries hs) = Inr h"
    by (simp add: header_parts_def)
  from header_flags_Inr [OF this] obtain vals where
    vals: "map snd (own_entries hs) = map JStr vals"
    and h': "h = map2 header_flag (map fst (own_entries hs)) vals" by blast
  have hf: "header_flag = (\<lambda>k v. lit ''-H '' @ [apos] @ k @ lit '': '' @ replace_apos v @ [apos])"
    by (simp add: fun_eq_iff header_flag_def)
  from vals have "length vals = length hs"
    by (metis length_map own_entries_length)
  with h' have len: "length h = length hs" by (simp add: own_entries_length)
  from vals h' f len show ?thesis
    unfolding hf by (auto simp: own_entries_no_index replace_apos_def)
qed

text \<open>The witness for C3: \<^verbatim>\<open>{"headers":{"X-Note":"it's","7":"y"}}\<close>.\<close>

theorem C3_header_flags_witness:
  "curl_parts (\<lambda>c. [c]) (\<lambda>s. s)
     (JObj [(lit ''headers'', JObj [(lit ''X-Note'', JStr (lit ''it's'')), (lit ''7'', JStr (lit ''y''))])])
     = Inr [lit ''curl'', lit ''-H '' @ [apos] @ lit ''7: y'' @ [apos],
            lit ''-H '' @ [apos] @ lit ''X-Note: it'' @ [apos, bsl, apos, apos] @ lit ''s'' @ [apos]]
   \<and> length (filter (prefix (lit ''-H ''))
       [lit ''curl'', lit ''-H '' @ [apos] @ lit ''7: y'' @ [apos],
            lit ''-H '' @ [apos] @ lit ''X-Note: it'' @ [apos, bsl, apos, apos] @ lit ''s'' @ [apos]]) = 2"
proof -
  let ?cfg = "JObj [(lit ''headers'', JObj [(lit ''X-Note'', JStr (lit ''it's'')), (lit ''7'', JStr (lit ''y''))])]"
  have h: "curl_parts (\<lambda>c. [c]) (\<lambda>s. s) ?cfg
     = Inr [lit ''curl'', lit ''-H '' @ [apos] @ lit ''7: y'' @ [apos],
            lit ''-H '' @ [apos] @ lit ''X-Note: it'' @ [apos, bsl, apos, apos] @ lit ''s'' @ [apos]]"
    by code_simp
  have g: "Get ?cfg ''headers'' = JObj [(lit ''X-Note'', JStr (lit ''it's'')), (lit ''7'', JStr (lit ''y''))]"
    by code_simp
  from C3_header_flags [OF h g] h show ?thesis by simp
qed

text \<open>
  Claim C4, as stated, fails on the order, for the same reason as C3: for
  \<^verbatim>\<open>{"form":{"b":"x","1":"y"}}\<close> the payload is \<^verbatim>\<open>1=y&b=x\<close>, not \<^verbatim>\<open>b=x&1=y\<close>.
\<close>

theorem C4_form_flag_counterexample:
  "curl_parts (\<lambda>c. [c]) (\<lambda>s. s)
     (JObj [(lit ''form'', JObj [(lit ''b'', JStr (lit ''x'')), (lit ''1'', JStr (lit ''y''))])])
     = Inr [lit ''curl'', lit ''-d '' @ [apos] @ lit ''1=y&b=x'' @ [apos]]
   \<and> lit ''-d '' @ [apos] @ lit ''1=y&b=x'' @ [apos] \<noteq> lit ''-d '' @ [apos] @ lit ''b=x&1=y'' @ [apos]"
  by code_simp

text \<open>
  Claim C4, amended. For a form mapping with an entry, the form step gives a single
  \<^verbatim>\<open>-d\<close> token, the first \<^verbatim>\<open>-d\<close> token of the output (a second one follows only from
  the JSON body step). Its payload joins with \<^verbatim>\<open>&\<close> one pair \<^verbatim>\<open>key=value\<close> for each
  entry, in the order of \<^verbatim>\<open>Object.entries\<close> (insertion order when no name is an array
  index), where key and value are what \<^verbatim>\<open>encodeURIComponent\<close> returns and a
  \<^verbatim>\<open>null\<close> or \<^verbatim>\<open>undefined\<close> value counts as the empty string. For
  \<^verbatim>\<open>{"form":{"a":"1","b":"two words"}}\<close> the token is \<^verbatim>\<open>-d 'a=1&b=two%20words'\<close>.
\<close>

theorem C4_form_flag:
  assumes "curl_parts uc sn config = Inr ps" and "Get config ''form'' = JObj fs" and "fs \<noteq> []"
  shows "(\<exists>pairs j.
            list_all2 (\<lambda>kv p. \<exists>ek ev. encodeURIComponent (JStr (fst kv)) = Inr ek
                                 \<and> encodeURIComponent (nullish_empty (snd kv)) = Inr ev
                                 \<and> p = ek @ lit ''='' @ ev) (own_entries fs) pairs
          \<and> json_body_part config = Inr j
          \<and> (truthy (Get config ''body'') \<and> truthy (Get config ''json'') \<or> j = [])
          \<and> filter (prefix (lit ''-d '')) ps
              = (lit ''-d '' @ [apos] @ join (lit ''&'') pairs @ [apos]) # j)
       \<and> nullish_empty JNull = JStr [] \<and> nullish_empty JUndefined = JStr []
       \<and> encodeURIComponent (JStr []) = Inr []
       \<and> (list_all (\<lambda>kv. \<not> is_array_index (fst kv)) fs \<longrightarrow> own_entries fs = fs)
       \<and> curl_parts uc sn
           (JObj [(lit ''form'', JObj [(lit ''a'', JStr (lit ''1'')), (lit ''b'', JStr (lit ''two words''))])])
           = Inr [lit ''curl'', lit ''-d '' @ [apos] @ lit ''a=1&b=two%20words'' @ [apos]]"
proof -
  from data_tokens [OF assms(1)] obtain f j r where f: "form_part config = Inr f"
    and j: "json_body_part config = Inr j" and r: "raw_body_part config = Inr r"
    and d: "filter (prefix (lit ''-d '')) ps = f @ j @ r" by blast
  from f assms(2) obtain pairs where pairs: "form_pairs (own_entries fs) = Inr pairs"
    and f': "f = (if length pairs > 0 then [data_flag (join (lit ''&'') pairs)] else [])"
    by (auto simp: form_part_def and_then_Inr_iff)
  from form_pairs_length [OF pairs] assms(3) have ne: "pairs \<noteq> []"
    by (auto simp: own_entries_length)
  from r assms(2) have r': "r = []" by (simp add: raw_body_part_def)
  from j have j': "truthy (Get config ''body'') \<and> truthy (Get config ''json'') \<or> j = []"
    by (auto simp: json_body_part_def split: if_splits)
  from d f' ne r' have flag: "filter (prefix (lit ''-d '')) ps
              = (lit ''-d '' @ [apos] @ join (lit ''&'') pairs @ [apos]) # j"
    by (simp add: data_flag_def)
  have n: "nullish_empty JNull = JStr []" "nullish_empty JUndefined = JStr []"
    "encodeURIComponent (JStr []) = Inr []"
    by (simp_all add: nullish_empty_def encodeURIComponent_def)
  have m: "method_part uc
           (JObj [(lit ''form'', JObj [(lit ''a'', JStr (lit ''1'')), (lit ''b'', JStr (lit ''two words''))])])
           = Inr []"
  proof -
    have "Get (JObj [(lit ''form'', JObj [(lit ''a'', JStr (lit ''1'')), (lit ''b'', JStr (lit ''two words''))])])
            ''method'' = JUndefined"
      by code_simp
    then show ?thesis by (simp add: method_part_def toUpperCase_GET)
  qed
  have ex: "curl_parts uc sn
           (JObj [(lit ''form'', JObj [(lit ''a'', JStr (lit ''1'')), (lit ''b'', JStr (lit ''two words''))])])
           = Inr [lit ''curl'', lit ''-d '' @ [apos] @ lit ''a=1&b=two%20words'' @ [apos]]"
    unfolding curl_parts_def m by code_simp
  from form_pairs_Inr [OF pairs] j j' flag have
    "\<exists>pairs j.
            list_all2 (\<lambda>kv p. \<exists>ek ev. encodeURIComponent (JStr (fst kv)) = Inr ek
                                 \<and> encodeURIComponent (nullish_empty (snd kv)) = Inr ev
                                 \<and> p = ek @ lit ''='' @ ev) (own_entries fs) pairs
          \<and> json_body_part config = Inr j
          \<and> (truthy (Get config ''body'') \<and> truthy (Get config ''json'') \<or> j = [])
          \<and> filter (prefix (lit ''-d '')) ps
              = (lit ''-d '' @ [apos] @ join (lit ''&'') pairs @ [apos]) # j"
    by blast
  with n ex show ?thesis by (simp add: own_entries_no_index)
qed

text \<open>The witness for C4: \<^verbatim>\<open>{"form":{"a":"1","n":null,"b":"two words"}}\<close>.\<close>

theorem C4_form_flag_witness:
  "curl_parts (\<lambda>c. [c]) (\<lambda>s. s)
     (JObj [(lit ''form'', JObj [(lit ''a'', JStr (lit ''1'')), (lit ''n'', JNull), (lit ''b'', JStr (lit ''two words''))])])
     = Inr [lit ''curl'', lit ''-d '' @ [apos] @ lit ''a=1&n=&b=two%20words'' @ [apos]]
   \<and> filter (prefix (lit ''-d '')) [lit ''curl'', lit ''-d '' @ [apos] @ lit ''a=1&n=&b=two%20words'' @ [apos]]
       = [lit ''-d '' @ [apos] @ lit ''a=1&n=&b=two%20words'' @ [apos]]
   \<and> own_entries [(lit ''a'', JStr (lit ''1'')), (lit ''n'', JNull), (lit ''b'', JStr (lit ''two words''))]
       = [(lit ''a'', JStr (lit ''1'')), (lit ''n'', JNull), (lit ''b'', JStr (lit ''two words''))]"
proof -
  let ?fs = "[(lit ''a'', JStr (lit ''1'')), (lit ''n'', JNull), (lit ''b'', JStr (lit ''two words''))]"
  let ?cfg = "JObj [(lit ''form'', JObj ?fs)]"
  have h: "curl_parts (\<lambda>c. [c]) (\<lambda>s. s) ?cfg
     = Inr [lit ''curl'', lit ''-d '' @ [apos] @ lit ''a=1&n=&b=two%20words'' @ [apos]]"
    by code_simp
  have g: "Get ?cfg ''form'' = JObj ?fs" "list_all (\<lambda>kv. \<not> is_array_index (fst kv)) ?fs"
    by code_simp+
  have p: "filter (prefix (lit ''-d '')) [lit ''curl'', lit ''-d '' @ [apos] @ lit ''a=1&n=&b=two%20words'' @ [apos]]
       = [lit ''-d '' @ [apos] @ lit ''a=1&n=&b=two%20words'' @ [apos]]"
    by code_simp
  from C4_form_flag [OF h g(1)] g(2) have "own_entries ?fs = ?fs" by blast
  with h p show ?thesis by blast
qed

text \<open>
  Claim C5, as stated, fails when \<^verbatim>\<open>uri\<close> is present but falsy:
  \<^verbatim>\<open>config.uri || config.url\<close> then yields \<^verbatim>\<open>url\<close>. For
  \<^verbatim>\<open>{"uri":"","url":"https://y.test"}\<close> the URL token is \<^verbatim>\<open>'https://y.test'\<close>.
\<close>

theorem C5_uri_precedence_counterexample:
  "Get (JObj [(lit ''uri'', JStr []), (lit ''url'', JStr (lit ''https://y.test''))]) ''uri'' = JStr []
   \<and> Get (JObj [(lit ''uri'', JStr []), (lit ''url'', JStr (lit ''https://y.test''))]) ''url''
       = JStr (lit ''https://y.test'')
   \<and> curl_parts (\<lambda>c. [c]) (\<lambda>s. s)
        (JObj [(lit ''uri'', JStr []), (lit ''url'', JStr (lit ''https://y.test''))])
       = Inr [lit ''curl'', [apos] @ lit ''https://y.test'' @ [apos]]
   \<and> last [lit ''curl'', [apos] @ lit ''https://y.test'' @ [apos]] \<noteq> [apos] @ [] @ [apos]"
  by code_simp

text \<open>
  Claim C5, amended. When \<^verbatim>\<open>uri\<close> is truthy (present and not the empty string, zero,
  \<^verbatim>\<open>false\<close> or \<^verbatim>\<open>null\<close>), the URL token, which is the last token and the only one
  that begins with an apostrophe, is taken from \<^verbatim>\<open>uri\<close>, whatever \<^verbatim>\<open>url\<close> holds. For
  \<^verbatim>\<open>{"uri":"https://x.test","url":"https://y.test"}\<close> the output is \<^verbatim>\<open>curl\<close> and
  \<^verbatim>\<open>'https://x.test'\<close>.
\<close>

theorem C5_uri_precedence:
  assumes "curl_parts uc sn config = Inr ps" and "truthy (Get config ''uri'')"
  shows "(\<exists>s. ToString (Get config ''uri'') = Inr s
            \<and> filter (prefix [apos]) ps = [[apos] @ s @ [apos]]
            \<and> last ps = [apos] @ s @ [apos])
       \<and> (\<forall>u. Get config ''uri'' = JStr u \<longrightarrow> last ps = [apos] @ u @ [apos])
       \<and> curl_parts uc sn (JObj [(lit ''uri'', JStr (lit ''https://x.test'')),
                               (lit ''url'', JStr (lit ''https://y.test''))])
           = Inr [lit ''curl'', [apos] @ lit ''https://x.test'' @ [apos]]"
proof -
  from url_tokens [OF assms(1)] obtain u where u: "url_part config = Inr u"
    and f: "filter (prefix [apos]) ps = u" by blast
  from assms(2) have res: "resolved_url config = Get config ''uri''"
    by (simp add: resolved_url_def)
  with url_part_Inr [OF u] assms(2) obtain s where s: "ToString (Get config ''uri'') = Inr s"
    and u': "u = [[apos] @ s @ [apos]]" by auto
  from u u' have "url_part config = Inr [[apos] @ s @ [apos]]" by simp
  from url_token_last [OF assms(1) this] have l: "last ps = [apos] @ s @ [apos]" .
  have str: "last ps = [apos] @ v @ [apos]" if "Get config ''uri'' = JStr v" for v
    using that s l by simp
  have m: "method_part uc (JObj [(lit ''uri'', JStr (lit ''https://x.test'')),
                               (lit ''url'', JStr (lit ''https://y.test''))]) = Inr []"
  proof -
    have "Get (JObj [(lit ''uri'', JStr (lit ''https://x.test'')),
                               (lit ''url'', JStr (lit ''https://y.test''))]) ''method'' = JUndefined"
      by code_simp
    then show ?thesis by (simp add: method_part_def toUpperCase_GET)
  qed
  have ex: "curl_parts uc sn (JObj [(lit ''uri'', JStr (lit ''https://x.test'')),
                               (lit ''url'', JStr (lit ''https://y.test''))])
           = Inr [lit ''curl'', [apos] @ lit ''https://x.test'' @ [apos]]"
    unfolding curl_parts_def m by code_simp
  from s f u' l str ex show ?thesis by simp
qed

text \<open>The witness for C5: the same two fields in the other order.\<close>

theorem C5_uri_precedence_witness:
  "curl_parts (\<lambda>c. [c]) (\<lambda>s. s) (JObj [(lit ''url'', JStr (lit ''https://y.test'')),
                            (lit ''uri'', JStr (lit ''https://x.test''))])
     = Inr [lit ''curl'', [apos] @ lit ''https://x.test'' @ [apos]]
   \<and> truthy (Get (JObj [(lit ''url'', JStr (lit ''https://y.test'')),
                            (lit ''uri'', JStr (lit ''https://x.test''))]) ''uri'')
   \<and> last [lit ''curl'', [apos] @ lit ''https://x.test'' @ [apos]] = [apos] @ lit ''https://x.test'' @ [apos]"
proof -
  let ?cfg = "JObj [(lit ''url'', JStr (lit ''https://y.test'')),
                    (lit ''uri'', JStr (lit ''https://x.test''))]"
  have h: "curl_parts (\<lambda>c. [c]) (\<lambda>s. s) ?cfg = Inr [lit ''curl'', [apos] @ lit ''https://x.test'' @ [apos]]"
    by code_simp
  have g: "truthy (Get ?cfg ''uri'')" "Get ?cfg ''uri'' = JStr (lit ''https://x.test'')"
    by code_simp+
  from C5_uri_precedence [OF h g(1)] g(2)
  have "last [lit ''curl'', [apos] @ lit ''https://x.test'' @ [apos]] = [apos] @ lit ''https://x.test'' @ [apos]"
    by blast
  with h g show ?thesis by blast
qed



text \<open>
  Claim C7, as stated, fails on the value of \<open>N\<close>: \<^verbatim>\<open>config.timeout / 1000\<close> is a
  division of doubles, and its result is rounded before \<^verbatim>\<open>Math.ceil\<close> sees it. The
  integer 144115188075859008 is a double; its quotient by 1000 rounds down to
  144115188075859, which the translator prints, while the ceiling of the exact quotient
  is 144115188075860.
\<close>

theorem C7_timeout_flag_counterexample:
  "number_value 144115188075859008 = 144115188075859008
   \<and> curl_parts (\<lambda>c. [c]) (\<lambda>s. s) (JObj [(lit ''timeout'', JNum 144115188075859008)])
       = Inr [lit ''curl'', lit ''--max-time 144115188075859'']
   \<and> \<lceil>real_of_int 144115188075859008 / 1000\<rceil> = 144115188075860
   \<and> lit ''--max-time 144115188075859'' \<noteq> lit ''--max-time 144115188075860''"
proof -
  have "number_value 144115188075859008 = 144115188075859008"
    by code_simp
  moreover have "curl_parts (\<lambda>c. [c]) (\<lambda>s. s) (JObj [(lit ''timeout'', JNum 144115188075859008)])
       = Inr [lit ''curl'', lit ''--max-time 144115188075859'']"
    by code_simp
  moreover have "\<lceil>real_of_int 144115188075859008 / 1000\<rceil> = 144115188075860"
    by (simp only: ceiling_thousand)
  moreover have "lit ''--max-time 144115188075859'' \<noteq> lit ''--max-time 144115188075860''"
    by (simp add: lit_def)
  ultimately show ?thesis by blast
qed

text \<open>
  Claim C7, amended. The output has a \<^verbatim>\<open>--max-time <N>\<close> token exactly when
  \<^verbatim>\<open>timeout\<close> is truthy, and then exactly one. For a timeout that is a number, \<open>N\<close> is
  the text of \<^verbatim>\<open>Math.ceil\<close> of the double quotient by 1000; for an integer of magnitude
  below \<open>2^53\<close> that is the ceiling of \<open>timeout / 1000\<close>. A timeout of 1500 and one of
  2000 both give \<^verbatim>\<open>--max-time 2\<close>.
\<close>

theorem C7_timeout_flag:
  assumes "curl_parts uc sn config = Inr ps"
  shows "((\<not> truthy (Get config ''timeout'') \<and> filter (prefix (lit ''--max-time '')) ps = [])
      \<or> (truthy (Get config ''timeout'')
          \<and> (\<exists>secs. filter (prefix (lit ''--max-time '')) ps = [lit ''--max-time '' @ secs])))
    \<and> (\<forall>ms. Get config ''timeout'' = JNum ms \<and> ms \<noteq> 0
          \<longrightarrow> filter (prefix (lit ''--max-time '')) ps = [lit ''--max-time '' @ secs_of_number ms])
    \<and> (\<forall>ms. Get config ''timeout'' = JNum ms \<and> ms \<noteq> 0 \<and> \<bar>ms\<bar> < 2 ^ 53
          \<longrightarrow> filter (prefix (lit ''--max-time '')) ps
                = [lit ''--max-time '' @ Number_toString \<lceil>real_of_int ms / 1000\<rceil>])
    \<and> (Get config ''timeout'' = JNum 1500
          \<longrightarrow> filter (prefix (lit ''--max-time '')) ps = [lit ''--max-time 2''])
    \<and> (Get config ''timeout'' = JNum 2000
          \<longrightarrow> filter (prefix (lit ''--max-time '')) ps = [lit ''--max-time 2''])"
proof -
  from timeout_tokens [OF assms] obtain t where t: "timeout_part sn config = Inr t"
    and f: "filter (prefix (lit ''--max-time '')) ps = t" by blast
  have main: "(\<not> truthy (Get config ''timeout'') \<and> filter (prefix (lit ''--max-time '')) ps = [])
      \<or> (truthy (Get config ''timeout'')
          \<and> (\<exists>secs. filter (prefix (lit ''--max-time '')) ps = [lit ''--max-time '' @ secs]))"
  proof -
    from t have "(\<not> truthy (Get config ''timeout'') \<and> t = [])
      \<or> (truthy (Get config ''timeout'') \<and> (\<exists>secs. t = [lit ''--max-time '' @ secs]))"
      by (auto simp: timeout_part_def and_then_Inr_iff split: if_splits jsval.splits)
    then show ?thesis unfolding f .
  qed
  have num: "filter (prefix (lit ''--max-time '')) ps = [lit ''--max-time '' @ secs_of_number ms]"
    if "Get config ''timeout'' = JNum ms" "ms \<noteq> 0" for ms
    using that t f by (simp add: timeout_part_def)
  have safe: "filter (prefix (lit ''--max-time '')) ps
                = [lit ''--max-time '' @ Number_toString \<lceil>real_of_int ms / 1000\<rceil>]"
    if "Get config ''timeout'' = JNum ms" "ms \<noteq> 0" "\<bar>ms\<bar> < 2 ^ 53" for ms
  proof -
    from that(3) have "\<not> is_infinite ms"
      by (simp add: is_infinite_def round_double_safe)
    with num [OF that(1,2)] timeoutSec_ceiling [OF that(3)] show ?thesis
      by (simp add: secs_of_number_def)
  qed
  have two: "lit ''--max-time '' @ secs_of_number 1500 = lit ''--max-time 2''"
    "lit ''--max-time '' @ secs_of_number 2000 = lit ''--max-time 2''"
    by code_simp+
  have e1: "filter (prefix (lit ''--max-time '')) ps = [lit ''--max-time 2'']"
    if "Get config ''timeout'' = JNum 1500"
    using num [OF that] two by simp
  have e2: "filter (prefix (lit ''--max-time '')) ps = [lit ''--max-time 2'']"
    if "Get config ''timeout'' = JNum 2000"
    using num [OF that] two by simp
  from main num safe e1 e2 show ?thesis by blast
qed

text \<open>The witness for C7: \<^verbatim>\<open>{"timeout":1500}\<close>.\<close>

theorem C7_timeout_flag_witness:
  "curl_parts (\<lambda>c. [c]) (\<lambda>s. s) (JObj [(lit ''timeout'', JNum 1500)])
     = Inr [lit ''curl'', lit ''--max-time 2'']
   \<and> filter (prefix (lit ''--max-time '')) [lit ''curl'', lit ''--max-time 2''] = [lit ''--max-time 2'']
   \<and> \<lceil>real_of_int 1500 / 1000\<rceil> = 2"
proof -
  have h: "curl_parts (\<lambda>c. [c]) (\<lambda>s. s) (JObj [(lit ''timeout'', JNum 1500)])
           = Inr [lit ''curl'', lit ''--max-time 2'']"
    by code_simp
  have g: "Get (JObj [(lit ''timeout'', JNum 1500)]) ''timeout'' = JNum 1500"
    by code_simp
  from C7_timeout_flag [OF h] g
  have "filter (prefix (lit ''--max-time '')) [lit ''curl'', lit ''--max-time 2''] = [lit ''--max-time 2'']"
    by blast
  moreover have "\<lceil>real_of_int 1500 / 1000\<rceil> = 2"
    by (simp only: ceiling_thousand)
  ultimately show ?thesis using h by blast
qed

text \<open>
  Claim C8. The output has the token \<^verbatim>\<open>-k\<close> exactly when \<^verbatim>\<open>rejectUnauthorized\<close> is the
  boolean \<^verbatim>\<open>false\<close>; with \<^verbatim>\<open>true\<close>, \<^verbatim>\<open>undefined\<close>, \<^verbatim>\<open>0\<close> or no such field there is
  no \<^verbatim>\<open>-k\<close>.
\<close>

theorem C8_insecure_flag:
  assumes "curl_parts uc sn config = Inr ps"
  shows "(lit ''-k'' \<in> set ps \<longleftrightarrow> Get config ''rejectUnauthorized'' = JBool False)
    \<and> (Get config ''rejectUnauthorized'' = JBool True \<or> Get config ''rejectUnauthorized'' = JUndefined
        \<or> Get config ''rejectUnauthorized'' = JNum 0 \<longrightarrow> lit ''-k'' \<notin> set ps)
    \<and> (\<forall>kvs. config = JObj kvs \<and> map_of kvs (lit ''rejectUnauthorized'') = None
          \<longrightarrow> lit ''-k'' \<notin> set ps)"
proof -
  have k: "lit ''-k'' \<in> set ps \<longleftrightarrow> Get config ''rejectUnauthorized'' = JBool False"
    by (simp add: insecure_token [OF assms] insecure_part_def)
  moreover have "Get (JObj kvs) ''rejectUnauthorized'' = JUndefined"
    if "map_of kvs (lit ''rejectUnauthorized'') = None" for kvs
    using that by (simp add: Get_def)
  ultimately show ?thesis by auto
qed

text \<open>The witness for C8: \<^verbatim>\<open>{"rejectUnauthorized":false}\<close>.\<close>

theorem C8_insecure_flag_witness:
  "curl_parts (\<lambda>c. [c]) (\<lambda>s. s) (JObj [(lit ''rejectUnauthorized'', JBool False)]) = Inr [lit ''curl'', lit ''-k'']
   \<and> Get (JObj [(lit ''rejectUnauthorized'', JBool False)]) ''rejectUnauthorized'' = JBool False
   \<and> lit ''-k'' \<in> set [lit ''curl'', lit ''-k'']"
proof -
  have h: "curl_parts (\<lambda>c. [c]) (\<lambda>s. s) (JObj [(lit ''rejectUnauthorized'', JBool False)])
           = Inr [lit ''curl'', lit ''-k'']"
    by code_simp
  have g: "Get (JObj [(lit ''rejectUnauthorized'', JBool False)]) ''rejectUnauthorized'' = JBool False"
    by code_simp
  from C8_insecure_flag [OF h] g h show ?thesis by simp
qed


text \<open>
  Claim C9, as stated, fails: \<^verbatim>\<open>encodeURIComponent\<close> raises \<^verbatim>\<open>URIError\<close> on a string
  with an unpaired surrogate, which \<^verbatim>\<open>JSON.parse\<close> accepts (\<^verbatim>\<open>{"form":{"a":"\ud800"}}\<close>),
  and \<^verbatim>\<open>TypeError\<close> on a form value that is an object with its own \<^verbatim>\<open>toString\<close>
  (\<^verbatim>\<open>{"form":{"a":{"toString":1}}}\<close>). Both are configurations of the shape the data
  model describes.
\<close>

theorem C9_total_counterexample:
  "is_object (JObj [(lit ''form'', JObj [(lit ''a'', JStr [0xD800])])])
   \<and> Get (JObj [(lit ''form'', JObj [(lit ''a'', JStr [0xD800])])]) ''form''
       = JObj [(lit ''a'', JStr [0xD800])]
   \<and> jsonToCurl (\<lambda>c. [c]) (\<lambda>s. s) (JObj [(lit ''form'', JObj [(lit ''a'', JStr [0xD800])])]) = Inl URIError
   \<and> jsonToCurl (\<lambda>c. [c]) (\<lambda>s. s) (JObj [(lit ''form'', JObj [(lit ''a'', JObj [(lit ''toString'', JNum 1)])])])
       = Inl TypeError"
  by code_simp

text \<open>
  Claim C9, amended. For every well-formed configuration (\<open>wf_config\<close>: the types of the
  data model, with the names and string values of \<^verbatim>\<open>form\<close> free of unpaired
  surrogates and its other values primitive) \<^verbatim>\<open>jsonToCurl\<close> returns a string. The empty
  object gives \<^verbatim>\<open>curl\<close>, and so does every object that has none of the fields the
  translator reads, whatever else it holds. The predicate asks nothing of the fields it
  does not name, so extra fields never matter.
\<close>

theorem C9_total:
  assumes "wf_config config"
  shows "(\<exists>out. jsonToCurl uc sn config = Inr out)
       \<and> jsonToCurl uc sn (JObj []) = Inr (lit ''curl'')
       \<and> (\<forall>kvs. list_all (\<lambda>name. map_of kvs (lit name) = None) known_fields
             \<longrightarrow> jsonToCurl uc sn (JObj kvs) = Inr (lit ''curl''))"
proof -
  from curl_parts_total [OF assms, where uc = uc and sn = sn] obtain ps where "curl_parts uc sn config = Inr ps" ..
  then have 1: "\<exists>out. jsonToCurl uc sn config = Inr out"
    by (simp add: jsonToCurl_def)
  have 2: "jsonToCurl uc sn (JObj kvs) = Inr (lit ''curl'')"
    if "list_all (\<lambda>name. map_of kvs (lit name) = None) known_fields" for kvs
    using unknown_fields_only [OF that] by (simp add: jsonToCurl_def)
  have "list_all (\<lambda>name. map_of [] (lit name) = (None :: jsval option)) known_fields"
    by (simp add: list_all_iff)
  from 2 [OF this] 1 2 show ?thesis by blast
qed

text \<open>The witness for C9: the round-trip scenario of the specification with the method
  in small letters and one extra field; the command has five tokens.\<close>

theorem C9_total_witness:
  "wf_config
     (JObj [(lit ''method'', JStr (lit ''post'')), (lit ''url'', JStr (lit ''https://api.example.com/users'')),
            (lit ''headers'', JObj [(lit ''Content-Type'', JStr (lit ''application/json''))]),
            (lit ''body'', JObj [(lit ''name'', JStr (lit ''John'')), (lit ''age'', JNum 30)]),
            (lit ''json'', JBool True), (lit ''comment'', JArr [JNull])])
   \<and> jsonToCurl (\<lambda>c. [c]) (\<lambda>s. s)
     (JObj [(lit ''method'', JStr (lit ''post'')), (lit ''url'', JStr (lit ''https://api.example.com/users'')),
            (lit ''headers'', JObj [(lit ''Content-Type'', JStr (lit ''application/json''))]),
            (lit ''body'', JObj [(lit ''name'', JStr (lit ''John'')), (lit ''age'', JNum 30)]),
            (lit ''json'', JBool True), (lit ''comment'', JArr [JNull])])
     = Inr (join separator
         [lit ''curl'', lit ''-X POST'',
          lit ''-H '' @ [apos] @ lit ''Content-Type: application/json'' @ [apos],
          lit ''-d '' @ [apos] @ lit ''{'' @ [dquote] @ lit ''name'' @ [dquote] @ lit '':'' @ [dquote]
            @ lit ''John'' @ [dquote] @ lit '','' @ [dquote] @ lit ''age'' @ [dquote] @ lit '':30}'' @ [apos],
          [apos] @ lit ''https://api.example.com/users'' @ [apos]])"
proof -
  let ?cfg = "JObj [(lit ''method'', JStr (lit ''post'')), (lit ''url'', JStr (lit ''https://api.example.com/users'')),
            (lit ''headers'', JObj [(lit ''Content-Type'', JStr (lit ''application/json''))]),
            (lit ''body'', JObj [(lit ''name'', JStr (lit ''John'')), (lit ''age'', JNum 30)]),
            (lit ''json'', JBool True), (lit ''comment'', JArr [JNull])]"
  have w: "wf_config ?cfg"
    by code_simp
  have v: "jsonToCurl (\<lambda>c. [c]) (\<lambda>s. s) ?cfg
     = Inr (join separator
         [lit ''curl'', lit ''-X POST'',
          lit ''-H '' @ [apos] @ lit ''Content-Type: application/json'' @ [apos],
          lit ''-d '' @ [apos] @ lit ''{'' @ [dquote] @ lit ''name'' @ [dquote] @ lit '':'' @ [dquote]
            @ lit ''John'' @ [dquote] @ lit '','' @ [dquote] @ lit ''age'' @ [dquote] @ lit '':30}'' @ [apos],
          [apos] @ lit ''https://api.example.com/users'' @ [apos]])"
    by code_simp
  from C9_total [OF w, where uc = "\<lambda>c. [c]" and sn = "\<lambda>s. s"] w v show ?thesis by blast
qed

text \<open>
  Claim C10. The URL token is emitted exactly when \<^verbatim>\<open>config.uri || config.url\<close> is
  truthy, and then it is that value between apostrophes, as the last token. A \<^verbatim>\<open>url\<close>
  that is the empty string, with \<^verbatim>\<open>uri\<close> absent or empty, gives no URL token; a
  \<^verbatim>\<open>uri\<close> that is the empty string falls through to \<^verbatim>\<open>url\<close>.
\<close>

theorem C10_url_token:
  assumes "curl_parts uc sn config = Inr ps"
  shows "resolved_url config
           = (if truthy (Get config ''uri'') then Get config ''uri'' else Get config ''url'')
       \<and> ((truthy (resolved_url config)
            \<and> (\<exists>s. ToString (resolved_url config) = Inr s
                   \<and> filter (prefix [apos]) ps = [[apos] @ s @ [apos]]
                   \<and> last ps = [apos] @ s @ [apos]))
          \<or> (\<not> truthy (resolved_url config) \<and> filter (prefix [apos]) ps = []))
       \<and> (Get config ''url'' = JStr [] \<and> (Get config ''uri'' = JUndefined \<or> Get config ''uri'' = JStr [])
            \<longrightarrow> filter (prefix [apos]) ps = [])
       \<and> (Get config ''uri'' = JStr [] \<longrightarrow> resolved_url config = Get config ''url'')
       \<and> (\<forall>u. Get config ''uri'' = JStr [] \<and> Get config ''url'' = JStr u \<and> u \<noteq> []
            \<longrightarrow> filter (prefix [apos]) ps = [[apos] @ u @ [apos]])"
proof -
  from url_tokens [OF assms] obtain u where u: "url_part config = Inr u"
    and f: "filter (prefix [apos]) ps = u" by blast
  note r = resolved_url_def [of config]
  have main: "(truthy (resolved_url config)
            \<and> (\<exists>s. ToString (resolved_url config) = Inr s
                   \<and> filter (prefix [apos]) ps = [[apos] @ s @ [apos]]
                   \<and> last ps = [apos] @ s @ [apos]))
          \<or> (\<not> truthy (resolved_url config) \<and> filter (prefix [apos]) ps = [])"
  proof (cases "truthy (resolved_url config)")
    case True
    with url_part_Inr [OF u] obtain s where s: "ToString (resolved_url config) = Inr s"
      and u': "u = [[apos] @ s @ [apos]]" by auto
    from u u' have "url_part config = Inr [[apos] @ s @ [apos]]" by simp
    from url_token_last [OF assms this] True s f u' show ?thesis by simp
  next
    case False
    with url_part_Inr [OF u] f show ?thesis by auto
  qed
  have e1: "filter (prefix [apos]) ps = []"
    if "Get config ''url'' = JStr []" "Get config ''uri'' = JUndefined \<or> Get config ''uri'' = JStr []"
    using that main by (auto simp: r)
  have e2: "resolved_url config = Get config ''url''" if "Get config ''uri'' = JStr []"
    using that by (simp add: r)
  have e3: "filter (prefix [apos]) ps = [[apos] @ v @ [apos]]"
    if "Get config ''uri'' = JStr []" "Get config ''url'' = JStr v" "v \<noteq> []" for v
    using that main by (auto simp: r)
  from main e1 e2 e3 show ?thesis by (simp add: r)
qed

text \<open>The witness for C10: \<^verbatim>\<open>{"uri":"","url":"u"}\<close> and \<^verbatim>\<open>{"url":""}\<close>.\<close>

theorem C10_url_token_witness:
  "curl_parts (\<lambda>c. [c]) (\<lambda>s. s) (JObj [(lit ''uri'', JStr []), (lit ''url'', JStr (lit ''u''))])
     = Inr [lit ''curl'', [apos] @ lit ''u'' @ [apos]]
   \<and> filter (prefix [apos]) [lit ''curl'', [apos] @ lit ''u'' @ [apos]] = [[apos] @ lit ''u'' @ [apos]]
   \<and> curl_parts (\<lambda>c. [c]) (\<lambda>s. s) (JObj [(lit ''url'', JStr [])]) = Inr [lit ''curl'']
   \<and> filter (prefix [apos]) [lit ''curl''] = []"
proof -
  let ?a = "JObj [(lit ''uri'', JStr []), (lit ''url'', JStr (lit ''u''))]"
  let ?b = "JObj [(lit ''url'', JStr [])]"
  have ha: "curl_parts (\<lambda>c. [c]) (\<lambda>s. s) ?a = Inr [lit ''curl'', [apos] @ lit ''u'' @ [apos]]"
    and hb: "curl_parts (\<lambda>c. [c]) (\<lambda>s. s) ?b = Inr [lit ''curl'']"
    by code_simp+
  have ga: "Get ?a ''uri'' = JStr []" "Get ?a ''url'' = JStr (lit ''u'')" "lit ''u'' \<noteq> []"
    and gb: "Get ?b ''url'' = JStr []" "Get ?b ''uri'' = JUndefined"
    by code_simp+
  from C10_url_token [OF ha] ga
  have a: "filter (prefix [apos]) [lit ''curl'', [apos] @ lit ''u'' @ [apos]] = [[apos] @ lit ''u'' @ [apos]]"
    by blast
  from C10_url_token [OF hb] gb
  have b: "filter (prefix [apos]) [lit ''curl''] = []"
    by blast
  from ha hb a b show ?thesis by blast
qed

end
